theory Spec2Isabelle
  imports Main "HOL-Library.Word"
begin

unbundle bit_operations_syntax

section \<open>Value log and write-ahead log of badger (value.go)\<close>

text \<open>
  A shallow embedding of \<^verbatim>\<open>value.go\<close>. Go structs are records, byte slices are lists of
  8-bit words, \<^verbatim>\<open>uint32\<close>/\<^verbatim>\<open>uint64\<close> are 32- and 64-bit words (arithmetic wraps), Go
  \<^verbatim>\<open>int\<close> lengths are naturals. A Go function returning \<^verbatim>\<open>(x, error)\<close> returns
  \<open>error + 'a\<close> here; a run-time panic (slice out of range, nil dereference, failed
  \<^verbatim>\<open>y.AssertTrue\<close>) is the error value \<open>Panic\<close>.

  Files: an open log file carries its contents in the field \<open>fd\<close>; the writer's descriptor
  stands at the end of the file (\<^verbatim>\<open>bootstrap\<close> leaves it behind the header,
  \<^verbatim>\<open>initLastFile\<close> seeks to the end), so \<^verbatim>\<open>fd.Write\<close> appends. The directory is the list
  of the paths that exist. System calls fail only for the reason the model can see
  (removing a path that does not exist, creating one that does); device errors, which
  every function of \<^verbatim>\<open>value.go\<close> merely propagates, are not modelled. Locks and the other
  goroutines are not modelled either: each function runs alone.
\<close>

type_synonym byte = "8 word"
type_synonym bytes = "byte list"

datatype error =
    Panic
  | EOF
  | ErrUnexpectedEOF
  | errStop
  | errTruncate
  | errDeleteVlogFile
  | ErrReplayNeeded
  | ErrTruncateNeeded
  | ErrEOF
  | ErrRetry
  | ErrChecksumMismatch
  | ErrKeySize
  | ErrSizeExceeded nat
  | ErrInvalidOffset
  | ErrInvalidRead
  | ErrFidNotFound
  | ErrExist
  | ErrNotExist
  | ErrFile error
  | ErrOther nat

text \<open>Sequencing of fallible steps: the first error is returned.\<close>

definition ebind :: "'e + 'a \<Rightarrow> ('a \<Rightarrow> 'e + 'b) \<Rightarrow> 'e + 'b" where
  "ebind m f = (case m of Inl err \<Rightarrow> Inl err | Inr x \<Rightarrow> f x)"

text \<open>The Go slice expression \<^verbatim>\<open>xs[lo:hi]\<close>; it panics unless \<open>lo \<le> hi \<le> len\<close>.\<close>

definition goSlice :: "'a list \<Rightarrow> nat \<Rightarrow> nat \<Rightarrow> error + 'a list" where
  "goSlice xs lo hi =
     (if lo \<le> hi \<and> hi \<le> length xs then Inr (take (hi - lo) (drop lo xs)) else Inl Panic)"

subsection \<open>Constants (lines 57--83)\<close>

definition bitDiscardEarlierVersions :: byte where "bitDiscardEarlierVersions = 0x04"
definition bitMergeEntry :: byte where "bitMergeEntry = 0x08"
definition bitTxn :: byte where "bitTxn = 0x40"
definition bitFinTxn :: byte where "bitFinTxn = 0x80"

definition lfHeaderSize :: nat where "lfHeaderSize = 20"

definition maxVlogFileSize :: nat where "maxVlogFileSize = 2 ^ 32 - 1"

datatype fileType = vlogFile | walFile

subsection \<open>Library functions used by the codec\<close>

text \<open>\<^verbatim>\<open>binary.BigEndian.PutUint32\<close> and \<^verbatim>\<open>y.BytesToU32\<close> (big-endian, four bytes).\<close>

definition PutUint32 :: "32 word \<Rightarrow> bytes" where
  "PutUint32 v = [ucast (drop_bit 24 v), ucast (drop_bit 16 v), ucast (drop_bit 8 v), ucast v]"

definition BytesToU32 :: "bytes \<Rightarrow> 32 word" where
  "BytesToU32 b =
     (push_bit 24 (ucast (b ! 0)) OR push_bit 16 (ucast (b ! 1)) OR
      push_bit 8 (ucast (b ! 2)) OR ucast (b ! 3))"

text \<open>
  \<^verbatim>\<open>hash/crc32\<close> with the Castagnoli table: the reflected CRC with polynomial
  \<open>0x82F63B78\<close>, initial value and final complement \<open>0xFFFFFFFF\<close>. Writing to the hash
  in several pieces is hashing the concatenation.
\<close>

definition crc_bit :: "32 word \<Rightarrow> 32 word" where
  "crc_bit c = (if bit c 0 then drop_bit 1 c XOR 0x82F63B78 else drop_bit 1 c)"

definition crc_byte :: "32 word \<Rightarrow> byte \<Rightarrow> 32 word" where
  "crc_byte c b = (crc_bit ^^ 8) (c XOR ucast b)"

definition crc32c :: "bytes \<Rightarrow> 32 word" where
  "crc32c bs = NOT (foldl crc_byte (NOT 0) bs)"

text \<open>
  The AES-CTR key stream is a parameter of the model: \<open>ks key iv i\<close> is byte \<open>i\<close> of the
  stream for \<open>key\<close> and \<open>iv\<close>.

  Modelled from the spec: \<^verbatim>\<open>y.XORBlockStream\<close> and \<^verbatim>\<open>y.XORBlockAllocate\<close> are not in
  \<^verbatim>\<open>value.go\<close>. Section 4.1: \<^verbatim>\<open>ENC(x) = x XOR AES_CTR_keystream(data_key, IV)\<close>. Both
  build the cipher with \<^verbatim>\<open>aes.NewCipher\<close>, which rejects a key whose length is not 16, 24
  or 32 bytes; this is the error that \<^verbatim>\<open>encodeEntry\<close> and \<^verbatim>\<open>decryptKV\<close> pass on.
\<close>

type_synonym keystream = "bytes \<Rightarrow> bytes \<Rightarrow> nat \<Rightarrow> byte"

definition XORBlock :: "keystream \<Rightarrow> bytes \<Rightarrow> bytes \<Rightarrow> bytes \<Rightarrow> error + bytes" where
  "XORBlock ks src key iv =
     (if length key = 16 \<or> length key = 24 \<or> length key = 32
      then Inr (map (\<lambda>(i, b). b XOR ks key iv i) (enumerate 0 src))
      else Inl ErrKeySize)"

subsection \<open>The record header\<close>

record header =
  klen :: "32 word"
  vlen :: "32 word"
  expiresAt :: "64 word"
  hmeta :: byte
  userMeta :: byte

text \<open>
  Modelled from the spec: \<^verbatim>\<open>header.Encode\<close>, \<^verbatim>\<open>header.Decode\<close>, \<^verbatim>\<open>header.DecodeFrom\<close> and
  \<^verbatim>\<open>maxHeaderSize\<close> are not in \<^verbatim>\<open>value.go\<close>. Section 3: the header is a variable-length
  encoding of \<^verbatim>\<open>{klen, vlen, expires_at, meta, user_meta}\<close>, the same everywhere, and
  \<^verbatim>\<open>max_header_size\<close> is a constant that sizes the buffers. Here: the two meta bytes, then
  the three numbers as unsigned varints (seven bits a byte, least significant group
  first, the top bit set on every byte but the last). A buffer that ends inside the
  header does not decode.
\<close>

function PutUvarint :: "nat \<Rightarrow> bytes" where
  "PutUvarint x =
     (if x < 128 then [of_nat x] else of_nat (x mod 128 + 128) # PutUvarint (x div 128))"
  by pat_completeness auto
termination
  by (relation "measure id") auto

fun Uvarint :: "bytes \<Rightarrow> (nat \<times> nat) option" where
  "Uvarint [] = None"
| "Uvarint (b # bs) =
     (if b < 0x80 then Some (unat b, 1)
      else case Uvarint bs of
             None \<Rightarrow> None
           | Some (x, n) \<Rightarrow> Some (unat b - 128 + 128 * x, Suc n))"

definition maxHeaderSize :: nat where "maxHeaderSize = 22"

definition Encode :: "header \<Rightarrow> bytes" where
  "Encode h =
     [hmeta h, userMeta h] @ PutUvarint (unat (klen h)) @ PutUvarint (unat (vlen h)) @
     PutUvarint (unat (expiresAt h))"

definition Decode :: "bytes \<Rightarrow> (header \<times> nat) option" where
  "Decode buf =
     (case buf of
        m # u # r \<Rightarrow>
          (case Uvarint r of
             None \<Rightarrow> None
           | Some (k, n1) \<Rightarrow>
               (case Uvarint (drop n1 r) of
                  None \<Rightarrow> None
                | Some (v, n2) \<Rightarrow>
                    (case Uvarint (drop (n1 + n2) r) of
                       None \<Rightarrow> None
                     | Some (x, n3) \<Rightarrow>
                         Some (\<lparr>klen = of_nat k, vlen = of_nat v, expiresAt = of_nat x,
                                hmeta = m, userMeta = u\<rparr>, 2 + n1 + n2 + n3))))
      | _ \<Rightarrow> None)"

definition DecodeFrom :: "bytes \<Rightarrow> error + (header \<times> nat)" where
  "DecodeFrom reader =
     (case Decode reader of
        None \<Rightarrow> Inl (if reader = [] then EOF else ErrUnexpectedEOF)
      | Some r \<Rightarrow> Inr r)"

subsection \<open>Log files and entries (lines 85--102)\<close>

record DataKey =
  KeyId :: "64 word"
  Data :: bytes

datatype FileLoadingMode = FileIO | MemoryMap

record logFile =
  path :: "fileType \<times> 32 word"
  fd :: bytes
  fid :: "32 word"
  fmap :: bytes
  lf_size :: "32 word"
  loadingMode :: FileLoadingMode
  dataKey :: "DataKey option"
  baseIV :: bytes
  fileType :: fileType

record Entry =
  Key :: bytes
  Value :: bytes
  UserMeta :: byte
  ExpiresAt :: "64 word"
  meta :: byte
  offset :: "32 word"
  skipVlog :: bool
  hlen :: nat

record valuePointer =
  Fid :: "32 word"
  Len :: "32 word"
  Offset :: "32 word"

definition encryptionEnabled :: "logFile \<Rightarrow> bool" where
  "encryptionEnabled lf = (dataKey lf \<noteq> None)"

text \<open>\<^verbatim>\<open>generateIV\<close> (lines 254--261): the assertion fails when \<open>baseIV\<close> has fewer than 12 bytes.\<close>

definition generateIV :: "logFile \<Rightarrow> 32 word \<Rightarrow> error + bytes" where
  "generateIV lf off =
     (if length (baseIV lf) < 12 then Inl Panic
      else Inr (take 12 (baseIV lf) @ PutUint32 off))"

text \<open>\<^verbatim>\<open>decryptKV\<close> (lines 173--175); \<open>lf.dataKey.Data\<close> dereferences the key.\<close>

definition decryptKV :: "keystream \<Rightarrow> logFile \<Rightarrow> bytes \<Rightarrow> 32 word \<Rightarrow> error + bytes" where
  "decryptKV ks lf buf off =
     (case dataKey lf of
        None \<Rightarrow> Inl Panic
      | Some dk \<Rightarrow> ebind (generateIV lf off) (\<lambda>iv. XORBlock ks buf (Data dk) iv))"

subsection \<open>The record codec (lines 109--171, 357--408)\<close>

text \<open>
  \<^verbatim>\<open>encodeEntry\<close> returns the buffer after the append and the encoded length. The header
  goes to the buffer and the hash, then the key and value (through the cipher when
  the file is encrypted), and the sum of the hash goes to the buffer only. When the
  cipher fails the Go function returns \<^verbatim>\<open>(0, err)\<close> and its callers drop the buffer.
\<close>

definition encodeEntry ::
  "keystream \<Rightarrow> logFile \<Rightarrow> Entry \<Rightarrow> bytes \<Rightarrow> 32 word \<Rightarrow> error + (bytes \<times> nat)" where
  "encodeEntry ks lf e buf off =
     (let h = \<lparr>klen = of_nat (length (Key e)), vlen = of_nat (length (Value e)),
               expiresAt = ExpiresAt e, hmeta = meta e, userMeta = UserMeta e\<rparr>;
          headerEnc = Encode h
      in if maxHeaderSize < length headerEnc then Inl Panic
         else ebind
           (case dataKey lf of
              Some dk \<Rightarrow>
                ebind (generateIV lf off) (\<lambda>iv. XORBlock ks (Key e @ Value e) (Data dk) iv)
            | None \<Rightarrow> Inr (Key e @ Value e))
           (\<lambda>kv. Inr (buf @ headerEnc @ kv @ PutUint32 (crc32c (headerEnc @ kv)),
                      length headerEnc + length (Key e) + length (Value e) + 4)))"

definition decodeEntry :: "keystream \<Rightarrow> logFile \<Rightarrow> bytes \<Rightarrow> 32 word \<Rightarrow> error + Entry" where
  "decodeEntry ks lf buf off =
     (case Decode buf of
        None \<Rightarrow> Inl Panic
      | Some (h, hl) \<Rightarrow>
          ebind (goSlice buf hl (length buf)) (\<lambda>kv0.
          ebind (if encryptionEnabled lf then decryptKV ks lf kv0 off else Inr kv0) (\<lambda>kv.
          ebind (goSlice kv 0 (unat (klen h))) (\<lambda>k.
          ebind (goSlice kv (unat (klen h)) (unat (klen h + vlen h))) (\<lambda>v.
            Inr \<lparr>Key = k, Value = v, UserMeta = userMeta h, ExpiresAt = expiresAt h,
                 meta = hmeta h, offset = off, skipVlog = False, hlen = 0\<rparr>)))))"

text \<open>
  \<^verbatim>\<open>io.ReadFull\<close> on the rest of a stream: \<^verbatim>\<open>io.EOF\<close> when nothing could be read,
  \<^verbatim>\<open>io.ErrUnexpectedEOF\<close> when the stream ends inside the buffer.
\<close>

definition ReadFull :: "bytes \<Rightarrow> nat \<Rightarrow> error + (bytes \<times> bytes)" where
  "ReadFull reader n =
     (if n \<le> length reader then Inr (take n reader, drop n reader)
      else if reader = [] then Inl EOF else Inl ErrUnexpectedEOF)"

text \<open>
  \<^verbatim>\<open>safeRead.Entry\<close>: \<open>reader\<close> is the rest of the file from the record on; the result holds
  the rest behind the record. The hash reader sums the header bytes and the key and
  value bytes as they come from the file. The buffers \<^verbatim>\<open>r.k\<close> and \<^verbatim>\<open>r.v\<close> are allocated
  and never used.
\<close>

definition safeRead_Entry ::
  "keystream \<Rightarrow> logFile \<Rightarrow> 32 word \<Rightarrow> bytes \<Rightarrow> error + (Entry \<times> bytes)" where
  "safeRead_Entry ks lf recordOffset reader =
     ebind (DecodeFrom reader) (\<lambda>(h, hl).
       if 65536 < klen h then Inl errTruncate
       else
         ebind (case ReadFull (drop hl reader) (unat (klen h + vlen h)) of
                  Inl err \<Rightarrow> Inl (if err = EOF then errTruncate else err)
                | Inr r \<Rightarrow> Inr r) (\<lambda>(buf0, r2).
         ebind (if encryptionEnabled lf then decryptKV ks lf buf0 recordOffset else Inr buf0) (\<lambda>buf.
         ebind (goSlice buf 0 (unat (klen h))) (\<lambda>k.
         ebind (goSlice buf (unat (klen h)) (length buf)) (\<lambda>v.
         ebind (case ReadFull r2 4 of
                  Inl err \<Rightarrow> Inl (if err = EOF then errTruncate else err)
                | Inr r \<Rightarrow> Inr r) (\<lambda>(crcBuf, r3).
           if BytesToU32 crcBuf \<noteq> crc32c (take hl reader @ buf0) then Inl errTruncate
           else Inr (\<lparr>Key = k, Value = v, UserMeta = userMeta h, ExpiresAt = expiresAt h,
                      meta = hmeta h, offset = recordOffset, skipVlog = False, hlen = hl\<rparr>,
                     r3)))))))"

subsection \<open>Spec-side notions of the codec\<close>

text \<open>The header that \<^verbatim>\<open>encodeEntry\<close> builds for an entry (lines 110--116).\<close>

definition headerOf :: "Entry \<Rightarrow> header" where
  "headerOf e = \<lparr>klen = of_nat (length (Key e)), vlen = of_nat (length (Value e)),
                 expiresAt = ExpiresAt e, hmeta = meta e, userMeta = UserMeta e\<rparr>"

text \<open>
  Section 4.1 of the spec, in its words: with encryption,
  \<^verbatim>\<open>ENC(x) = x XOR AES_CTR_keystream(data_key, IV = base_iv || be_u32(file_offset))\<close>,
  otherwise \<^verbatim>\<open>ENC(x) = x\<close>.
\<close>

definition ENC :: "keystream \<Rightarrow> logFile \<Rightarrow> 32 word \<Rightarrow> bytes \<Rightarrow> bytes" where
  "ENC ks lf off x =
     (case dataKey lf of
        None \<Rightarrow> x
      | Some dk \<Rightarrow>
          map (\<lambda>(i, b). b XOR ks (Data dk) (take 12 (baseIV lf) @ PutUint32 off) i)
            (enumerate 0 x))"

text \<open>
  A file is well keyed when it is plain, or its data key is an AES key (16, 24 or 32
  bytes) and its base IV has the 12 bytes \<^verbatim>\<open>generateIV\<close> asserts.
\<close>

definition validKey :: "logFile \<Rightarrow> bool" where
  "validKey lf =
     (case dataKey lf of
        None \<Rightarrow> True
      | Some dk \<Rightarrow>
          (length (Data dk) = 16 \<or> length (Data dk) = 24 \<or> length (Data dk) = 32) \<and>
          12 \<le> length (baseIV lf))"

text \<open>The number of bytes of the record of an entry.\<close>

definition recordLen :: "Entry \<Rightarrow> nat" where
  "recordLen e = length (Encode (headerOf e)) + length (Key e) + length (Value e) + 4"

subsection \<open>Concrete inputs\<close>

definition plainFile :: "fileType \<Rightarrow> 32 word \<Rightarrow> bytes \<Rightarrow> logFile" where
  "plainFile ft i content =
     \<lparr>path = (ft, i), fd = content, fid = i, fmap = [], lf_size = of_nat (length content),
      loadingMode = FileIO, dataKey = None, baseIV = replicate 12 0, fileType = ft\<rparr>"

definition cipherFile :: "fileType \<Rightarrow> 32 word \<Rightarrow> bytes \<Rightarrow> logFile" where
  "cipherFile ft i content =
     \<lparr>path = (ft, i), fd = content, fid = i, fmap = [], lf_size = of_nat (length content),
      loadingMode = FileIO, dataKey = Some \<lparr>KeyId = 7, Data = replicate 16 1\<rparr>,
      baseIV = replicate 12 2, fileType = ft\<rparr>"

definition noKeystream :: keystream where
  "noKeystream key iv i = 0"

definition toyKeystream :: keystream where
  "toyKeystream key iv i = of_nat i + 0x5A"

definition mkEntry :: "bytes \<Rightarrow> bytes \<Rightarrow> byte \<Rightarrow> Entry" where
  "mkEntry k v m = \<lparr>Key = k, Value = v, UserMeta = 0, ExpiresAt = 0, meta = m, offset = 0,
                    skipVlog = False, hlen = 0\<rparr>"

definition cx1_record :: bytes where
  "cx1_record =
     Encode \<lparr>klen = 1, vlen = 0xFFFFFFFF, expiresAt = 0, hmeta = 0, userMeta = 0\<rparr> @
     [0] @ replicate (2 ^ 32 - 1) 0 @
     PutUint32 (crc32c (Encode \<lparr>klen = 1, vlen = 0xFFFFFFFF, expiresAt = 0, hmeta = 0, userMeta = 0\<rparr> @
                        [0] @ replicate (2 ^ 32 - 1) 0))"

subsection \<open>More library functions\<close>

text \<open>\<^verbatim>\<open>binary.BigEndian.PutUint64\<close>.\<close>

definition PutUint64 :: "64 word \<Rightarrow> bytes" where
  "PutUint64 v =
     [ucast (drop_bit 56 v), ucast (drop_bit 48 v), ucast (drop_bit 40 v), ucast (drop_bit 32 v),
      ucast (drop_bit 24 v), ucast (drop_bit 16 v), ucast (drop_bit 8 v), ucast v]"

text \<open>
  Modelled from the spec: \<^verbatim>\<open>y.ParseTs\<close> is not in \<^verbatim>\<open>value.go\<close>. Section 6:
  \<^verbatim>\<open>parse_ts(key)\<close> is the last 8 bytes of the key, big-endian.
\<close>

definition ParseTs :: "bytes \<Rightarrow> 64 word" where
  "ParseTs key = foldl (\<lambda>a b. push_bit 8 a OR ucast b) 0 (drop (length key - 8) key)"

text \<open>
  \<^verbatim>\<open>strconv.ParseUint(s, 10, 64)\<close>: a non-empty string of decimal digits whose value is
  below \<open>2^64\<close>; anything else is an error (\<open>None\<close>).
\<close>

definition isDigit :: "byte \<Rightarrow> bool" where
  "isDigit b = (0x30 \<le> b \<and> b \<le> 0x39)"

definition ParseUint :: "bytes \<Rightarrow> 64 word option" where
  "ParseUint s =
     (if s = [] \<or> \<not> list_all isDigit s then None
      else (let n = foldl (\<lambda>a b. 10 * a + (unat b - 48)) 0 s
            in if n < 2 ^ 64 then Some (of_nat n) else None))"


text \<open>
  A Go map is an association list with one pair a key: \<open>map_of\<close> reads it,
  \<open>mapPut\<close> is \<^verbatim>\<open>m[k] = v\<close>, \<open>mapDelete\<close> is \<^verbatim>\<open>delete(m, k)\<close>, and \<open>mapModify\<close> is an
  assignment through the pointer stored at \<open>k\<close>.
\<close>

definition mapPut :: "'k \<Rightarrow> 'v \<Rightarrow> ('k \<times> 'v) list \<Rightarrow> ('k \<times> 'v) list" where
  "mapPut k v m = (k, v) # filter (\<lambda>p. fst p \<noteq> k) m"

definition mapDelete :: "'k \<Rightarrow> ('k \<times> 'v) list \<Rightarrow> ('k \<times> 'v) list" where
  "mapDelete k m = filter (\<lambda>p. fst p \<noteq> k) m"

definition mapModify :: "'k \<Rightarrow> ('v \<Rightarrow> 'v) \<Rightarrow> ('k \<times> 'v) list \<Rightarrow> ('k \<times> 'v) list" where
  "mapModify k f m = map (\<lambda>p. if fst p = k then (fst p, f (snd p)) else p) m"

text \<open>
  The file system: \<^verbatim>\<open>Truncate(n)\<close> cuts a file or fills it with zeros; a mapping of \<open>n\<close>
  bytes shows the file, with zeros behind its end, and writes to the file show in it.
\<close>

definition ftruncate :: "nat \<Rightarrow> bytes \<Rightarrow> bytes" where
  "ftruncate n content = take n content @ replicate (n - length content) 0"

definition fdWrite :: "bytes \<Rightarrow> logFile \<Rightarrow> logFile" where
  "fdWrite buf lf =
     lf\<lparr>fd := fd lf @ buf,
        fmap := (if fmap lf = [] then [] else ftruncate (length (fmap lf)) (fd lf @ buf))\<rparr>"

subsection \<open>The value log (lines 866--894, 1461--1470)\<close>

record Options =
  InMemory :: bool
  ReadOnly :: bool
  Truncate :: bool
  VerifyValueChecksum :: bool
  ValueLogFileSize :: int
  ValueLogMaxEntries :: "32 word"
  ValueThreshold :: int
  ValueLogLoadingMode :: FileLoadingMode

record logWrapper =
  filesMap :: "(32 word \<times> logFile) list"
  maxFid :: "32 word"
  writableOffset :: "32 word"
  numEntriesWritten :: "32 word"
  numActiveIterators :: "32 word"
  filesToBeDeleted :: "32 word list"

text \<open>
  Besides the two log sets and the options, the state holds what the functions below
  change outside the struct: the map of the discard statistics, the directory (the
  paths that exist) and the counter \<^verbatim>\<open>db.logRotates\<close>.
\<close>

record valueLog =
  vlog :: logWrapper
  wal :: logWrapper
  opt :: Options
  lfDiscardStats :: "(32 word \<times> int) list"
  dir :: "(fileType \<times> 32 word) list"
  logRotates :: int

record request =
  Entries :: "Entry list"
  Ptrs :: "valuePointer list"
  head :: valuePointer

text \<open>
  What the environment decides: the key stream of the cipher, the data key that the
  registry hands out for a new file, and the 12 random bytes of its base IV.
\<close>

record env =
  aesCTR :: keystream
  latestDataKey :: "fileType \<times> 32 word \<Rightarrow> error + DataKey option"
  cryptoRand :: "fileType \<times> 32 word \<Rightarrow> error + bytes"

text \<open>A stateful step fails with the error and the state of the files at that point.\<close>

type_synonym 'a res = "(error \<times> valueLog) + 'a"

definition zeroPtr :: valuePointer where
  "zeroPtr = \<lparr>Fid = 0, Len = 0, Offset = 0\<rparr>"

definition logOf :: "fileType \<Rightarrow> valueLog \<Rightarrow> logWrapper" where
  "logOf ft st = (case ft of vlogFile \<Rightarrow> vlog st | walFile \<Rightarrow> wal st)"

definition setLog :: "fileType \<Rightarrow> logWrapper \<Rightarrow> valueLog \<Rightarrow> valueLog" where
  "setLog ft lw st = (case ft of vlogFile \<Rightarrow> st\<lparr>vlog := lw\<rparr> | walFile \<Rightarrow> st\<lparr>wal := lw\<rparr>)"

text \<open>
  A \<^verbatim>\<open>*logFile\<close> held by the writer is the log set and the key under which the file
  stands in its \<^verbatim>\<open>filesMap\<close>; \<open>None\<close> is \<^verbatim>\<open>nil\<close>.
\<close>

type_synonym filePtr = "(fileType \<times> 32 word) option"

definition deref :: "valueLog \<Rightarrow> fileType \<times> 32 word \<Rightarrow> logFile option" where
  "deref st p = map_of (filesMap (logOf (fst p) st)) (snd p)"

definition modifyFile :: "fileType \<times> 32 word \<Rightarrow> (logFile \<Rightarrow> logFile) \<Rightarrow> valueLog \<Rightarrow> valueLog" where
  "modifyFile p f st =
     setLog (fst p) ((logOf (fst p) st)\<lparr>filesMap := mapModify (snd p) f (filesMap (logOf (fst p) st))\<rparr>) st"

definition fpath :: "32 word \<Rightarrow> fileType \<Rightarrow> fileType \<times> 32 word" where
  "fpath i ft = (ft, i)"

definition keyID :: "logFile \<Rightarrow> 64 word" where
  "keyID lf = (case dataKey lf of None \<Rightarrow> 0 | Some dk \<Rightarrow> KeyId dk)"

text \<open>\<^verbatim>\<open>mmap\<close> (lines 186--200) and \<^verbatim>\<open>munmap\<close> (lines 206--219).\<close>

definition mmap :: "nat \<Rightarrow> logFile \<Rightarrow> logFile" where
  "mmap sz lf =
     (if loadingMode lf \<noteq> MemoryMap then lf
      else if fileType lf = walFile then lf
      else lf\<lparr>fmap := ftruncate sz (fd lf)\<rparr>)"

definition munmap :: "logFile \<Rightarrow> logFile" where
  "munmap lf = (if loadingMode lf \<noteq> MemoryMap \<or> fmap lf = [] then lf else lf\<lparr>fmap := []\<rparr>)"

text \<open>\<^verbatim>\<open>logFile.init\<close> (lines 1373--1390) and \<^verbatim>\<open>doneWriting\<close> (lines 263--296).\<close>

definition lf_init :: "logFile \<Rightarrow> error + logFile" where
  "lf_init lf =
     (let sz = length (fd lf)
      in if sz = 0 then Inr lf
         else if 2 ^ 32 - 1 < sz then Inl Panic
         else Inr (mmap sz (lf\<lparr>lf_size := of_nat sz\<rparr>)))"

definition doneWriting :: "logFile \<Rightarrow> 32 word \<Rightarrow> error + logFile" where
  "doneWriting lf off = lf_init ((munmap lf)\<lparr>fd := ftruncate (unat off) (fd lf)\<rparr>)"

text \<open>
  \<^verbatim>\<open>bootstrap\<close> (lines 1029--1062): the file is emptied first, so that a failure of the
  registry or of the random source leaves it empty.
\<close>

definition bootstrap :: "env \<Rightarrow> logFile \<Rightarrow> (error + unit) \<times> logFile" where
  "bootstrap env lf =
     (let lf0 = lf\<lparr>fd := []\<rparr>
      in case latestDataKey env (path lf) of
           Inl err \<Rightarrow> (Inl err, lf0)
         | Inr dk \<Rightarrow>
             (let lf1 = lf0\<lparr>dataKey := dk\<rparr>
              in case cryptoRand env (path lf) of
                   Inl err \<Rightarrow> (Inl err, lf1)
                 | Inr r \<Rightarrow>
                     (let iv = take 12 (r @ replicate 12 0)
                      in (Inr (), lf1\<lparr>baseIV := iv, fd := PutUint64 (keyID lf1) @ iv\<rparr>))))"

subsection \<open>Reading a value (lines 222--251, 1756--1844)\<close>






definition mkLog :: "(32 word \<times> logFile) list \<Rightarrow> 32 word \<Rightarrow> 32 word \<Rightarrow> logWrapper" where
  "mkLog fs mx off =
     \<lparr>filesMap = fs, maxFid = mx, writableOffset = off, numEntriesWritten = 0,
      numActiveIterators = 0, filesToBeDeleted = []\<rparr>"

definition defaultOptions :: Options where
  "defaultOptions =
     \<lparr>InMemory = False, ReadOnly = False, Truncate = True, VerifyValueChecksum = True,
      ValueLogFileSize = 1000, ValueLogMaxEntries = 100, ValueThreshold = 2,
      ValueLogLoadingMode = FileIO\<rparr>"

definition mkState :: "logWrapper \<Rightarrow> logWrapper \<Rightarrow> valueLog" where
  "mkState v w =
     \<lparr>vlog = v, wal = w, opt = defaultOptions, lfDiscardStats = [],
      dir = map (\<lambda>p. (vlogFile, fst p)) (filesMap v) @ map (\<lambda>p. (walFile, fst p)) (filesMap w),
      logRotates = 0\<rparr>"




subsection \<open>Garbage collection (lines 506--511, 671--803, 1444--1459, 1848--1915)\<close>






definition sortedFids :: "logWrapper \<Rightarrow> 32 word list" where
  "sortedFids lw = sort (filter (\<lambda>i. i \<notin> set (filesToBeDeleted lw)) (map fst (filesMap lw)))"

text \<open>
  \<^verbatim>\<open>pickLog\<close>: \<open>r1\<close> and \<open>r2\<close> are what the random source gives to the two calls of
  \<^verbatim>\<open>rand.Intn\<close>, reduced to the range of the call. A missing key of the statistics reads
  as 0.
\<close>

definition pickLog :: "valueLog \<Rightarrow> nat \<Rightarrow> nat \<Rightarrow> logFile option list" where
  "pickLog st r1 r2 =
     (let fids = sortedFids (vlog st)
      in if length fids \<le> 1 then []
         else
           (let stat = (\<lambda>i. case map_of (lfDiscardStats st) i of None \<Rightarrow> 0 | Some d \<Rightarrow> d);
                candidate = foldl (\<lambda>c i. if snd c < stat i then (i, stat i) else c)
                              (0xFFFFFFFF, 0) fids;
                files = (if fst candidate \<noteq> 0xFFFFFFFF
                         then [map_of (filesMap (vlog st)) (fst candidate)] else []);
                idx0 = r1 mod length fids;
                idx = (if 0 < idx0 then r2 mod (idx0 + 1) else idx0)
            in files @ [map_of (filesMap (vlog st)) (fids ! idx)]))"

definition deleteLogFile :: "valueLog \<Rightarrow> logFile option \<Rightarrow> valueLog res" where
  "deleteLogFile st lfo =
     (case lfo of
        None \<Rightarrow> Inr st
      | Some lf \<Rightarrow>
          if path lf \<noteq> fpath (fid lf) (fileType lf) then Inl (Panic, st)
          else if path lf \<notin> set (dir st) then Inl (ErrNotExist, st)
          else Inr (st\<lparr>dir := removeAll (path lf) (dir st)\<rparr>))"

text \<open>
  \<^verbatim>\<open>rewrite\<close>: the assertions at its head (lines 507--511) and its end (lines 671--695).
  Between them the function walks the file and hands the live entries to the LSM tree,
  which sends them through the writer; \<open>moved\<close> is that part, a step on the state that
  may fail.
\<close>

definition rewrite ::
  "valueLog \<Rightarrow> logFile option \<Rightarrow> (valueLog \<Rightarrow> valueLog res) \<Rightarrow> valueLog res" where
  "rewrite st fp moved =
     (case fp of
        None \<Rightarrow> Inl (Panic, st)
      | Some f \<Rightarrow>
          if \<not> fid f < maxFid (vlog st) then Inl (Panic, st)
          else
            ebind (moved st) (\<lambda>st1.
              case map_of (filesMap (vlog st1)) (fid f) of
                None \<Rightarrow> Inl (ErrFidNotFound, st1)
              | Some g \<Rightarrow>
                  if numActiveIterators (vlog st1) = 0
                  then deleteLogFile
                         (st1\<lparr>vlog := (vlog st1)\<lparr>filesMap := mapDelete (fid f) (filesMap (vlog st1))\<rparr>\<rparr>)
                         (Some f)
                  else Inr (st1\<lparr>vlog := (vlog st1)
                                 \<lparr>filesToBeDeleted := filesToBeDeleted (vlog st1) @ [fid f]\<rparr>\<rparr>)))"

fun deleteAll :: "valueLog \<Rightarrow> logFile option list \<Rightarrow> valueLog res" where
  "deleteAll st [] = Inr st"
| "deleteAll st (lf # lfs) = ebind (deleteLogFile st lf) (\<lambda>st'. deleteAll st' lfs)"

definition incrIteratorCount :: "valueLog \<Rightarrow> valueLog" where
  "incrIteratorCount st = st\<lparr>vlog := (vlog st)\<lparr>numActiveIterators := numActiveIterators (vlog st) + 1\<rparr>\<rparr>"

definition decrIteratorCount :: "valueLog \<Rightarrow> valueLog res" where
  "decrIteratorCount st =
     (let num = numActiveIterators (vlog st) - 1;
          st1 = st\<lparr>vlog := (vlog st)\<lparr>numActiveIterators := num\<rparr>\<rparr>
      in if num \<noteq> 0 then Inr st1
         else
           (let r = foldl (\<lambda>acc i. (fst acc @ [map_of (snd acc) i], mapDelete i (snd acc)))
                      ([], filesMap (vlog st1)) (filesToBeDeleted (vlog st1));
                st2 = st1\<lparr>vlog := (vlog st1)\<lparr>filesMap := snd r, filesToBeDeleted := []\<rparr>\<rparr>
            in deleteAll st2 (fst r)))"

text \<open>
  The state the log sets keep between calls: every file of the value log set stands
  in the map under its own id, with the path of that id, and exists in the directory.
\<close>

definition vlogOnDisk :: "valueLog \<Rightarrow> bool" where
  "vlogOnDisk st =
     (distinct (map fst (filesMap (vlog st))) \<and>
      list_all (\<lambda>p. fid (snd p) = fst p \<and> fileType (snd p) = vlogFile \<and>
                    path (snd p) = (vlogFile, fst p) \<and> (vlogFile, fst p) \<in> set (dir st))
        (filesMap (vlog st)))"

definition cx8_state :: valueLog where
  "cx8_state =
     (mkState (mkLog [(0, plainFile vlogFile 0 (replicate 20 0)),
                      (1, plainFile vlogFile 1 (replicate 20 0))] 1 20)
        (mkLog [(0, plainFile walFile 0 (replicate 20 0))] 0 20))
     \<lparr>lfDiscardStats := [(1, 5)]\<rparr>"



definition cx9_state :: valueLog where
  "cx9_state =
     mkState (mkLog [(0, plainFile vlogFile 0 (replicate 20 0)),
                     (1, plainFile vlogFile 1 (replicate 20 0))] 1 20)
       (mkLog [(0, plainFile walFile 0 (replicate 20 0))] 0 20)"

definition cx9_pending :: valueLog where
  "cx9_pending =
     cx9_state\<lparr>vlog := (vlog cx9_state)\<lparr>numActiveIterators := 1, filesToBeDeleted := [0]\<rparr>\<rparr>"

subsection \<open>Replay (lines 412--504, 1139--1183)\<close>

text \<open>
  The \<^verbatim>\<open>switch\<close> of \<^verbatim>\<open>iterate\<close> on the transaction bits of a record (lines 468--494), given
  \<^verbatim>\<open>lastCommit\<close>, \<^verbatim>\<open>validEndOffset\<close> and the offset behind the record: \<open>None\<close> is
  \<^verbatim>\<open>break loop\<close>, otherwise the new \<^verbatim>\<open>lastCommit\<close> and \<^verbatim>\<open>validEndOffset\<close>.
\<close>

definition framing ::
  "Entry \<Rightarrow> 64 word \<Rightarrow> 32 word \<Rightarrow> 32 word \<Rightarrow> (64 word \<times> 32 word) option" where
  "framing e lastCommit validEndOffset recordOffset =
     (if 0 < meta e AND bitTxn then
        (let txnTs = ParseTs (Key e);
             lastCommit' = (if lastCommit = 0 then txnTs else lastCommit)
         in if lastCommit' \<noteq> txnTs then None else Some (lastCommit', validEndOffset))
      else if 0 < meta e AND bitFinTxn then
        (case ParseUint (Value e) of
           None \<Rightarrow> None
         | Some txnTs \<Rightarrow> if lastCommit \<noteq> txnTs then None else Some (0, recordOffset))
      else if lastCommit \<noteq> 0 then None
      else Some (lastCommit, recordOffset))"

text \<open>Every record that is read takes bytes from the stream, so that the loop ends.\<close>

lemma safeRead_Entry_shorter:
  assumes "safeRead_Entry ks lf ro reader = Inr (e, r)"
  shows "length r < length reader"
proof -
  from assms obtain h :: header and hl buf0 r2 crcBuf where
    a: "ReadFull (drop hl reader) (unat (klen h + vlen h)) = Inr (buf0, r2)"
    and b: "ReadFull r2 4 = Inr (crcBuf, r)"
    by (auto simp add: safeRead_Entry_def ebind_def split: sum.splits prod.splits if_splits)
  from a have "length r2 \<le> length reader"
    by (auto simp add: ReadFull_def split: if_splits)
  moreover from b have "length r < length r2"
    by (auto simp add: ReadFull_def split: if_splits)
  ultimately show ?thesis by simp
qed

text \<open>
  The loop of \<^verbatim>\<open>iterate\<close> (lines 447--502). \<open>reader\<close> is the rest of the file; the caller's
  function \<open>fn\<close> works on a state of its own. The case \<^verbatim>\<open>e == nil\<close> does not arise:
  \<^verbatim>\<open>safeRead.Entry\<close> returns an entry whenever it returns no error.
\<close>

function iterate_loop ::
  "keystream \<Rightarrow> logFile \<Rightarrow> ('s \<Rightarrow> Entry \<Rightarrow> valuePointer \<Rightarrow> error + 's) \<Rightarrow> bytes \<Rightarrow>
   32 word \<Rightarrow> 64 word \<Rightarrow> 32 word \<Rightarrow> 's \<Rightarrow> (error + 32 word) \<times> 's" where
  "iterate_loop ks lf fn reader recordOffset lastCommit validEndOffset s =
     (case safeRead_Entry ks lf recordOffset reader of
        Inl err \<Rightarrow>
          if err = EOF \<or> err = ErrUnexpectedEOF \<or> err = errTruncate
          then (Inr validEndOffset, s)
          else (Inl err, s)
      | Inr (e, reader') \<Rightarrow>
          (let vpLen = of_nat (hlen e + length (Key e) + length (Value e) + 4);
               recordOffset' = recordOffset + vpLen;
               vp = \<lparr>Fid = fid lf, Len = vpLen, Offset = offset e\<rparr>
           in case framing e lastCommit validEndOffset recordOffset' of
                None \<Rightarrow> (Inr validEndOffset, s)
              | Some (lastCommit', validEndOffset') \<Rightarrow>
                  (case fn s e vp of
                     Inl err \<Rightarrow>
                       if err = errStop then (Inr validEndOffset', s)
                       else (Inl (ErrFile err), s)
                   | Inr s' \<Rightarrow>
                       iterate_loop ks lf fn reader' recordOffset' lastCommit' validEndOffset' s')))"
  by pat_completeness auto
termination
  by (relation "measure (\<lambda>(ks, lf, fn, reader, r). length reader)")
    (auto dest: safeRead_Entry_shorter)

definition iterate ::
  "keystream \<Rightarrow> Options \<Rightarrow> logFile \<Rightarrow> 32 word \<Rightarrow> ('s \<Rightarrow> Entry \<Rightarrow> valuePointer \<Rightarrow> error + 's) \<Rightarrow>
   's \<Rightarrow> (error + 32 word) \<times> 's" where
  "iterate ks opts lf offset0 fn s =
     (let off = (if offset0 = 0 then of_nat lfHeaderSize else offset0)
      in if unat off = length (fd lf) then (Inr off, s)
         else if ReadOnly opts then (Inl ErrReplayNeeded, s)
         else iterate_loop ks lf fn (drop (unat off) (fd lf)) off 0 off s)"

text \<open>
  \<^verbatim>\<open>replayLog\<close>: the result, the file as it is left, and the state of the caller's
  function.
\<close>

definition replayLog ::
  "env \<Rightarrow> valueLog \<Rightarrow> logFile \<Rightarrow> 32 word \<Rightarrow> ('s \<Rightarrow> Entry \<Rightarrow> valuePointer \<Rightarrow> error + 's) \<Rightarrow> 's \<Rightarrow>
   (error + unit) \<times> logFile \<times> 's" where
  "replayLog env st lf offset0 replayFn s =
     (if fileType lf \<noteq> walFile then (Inl Panic, lf, s)
      else
        (case iterate (aesCTR env) (opt st) lf offset0 replayFn s of
           (Inl err, s') \<Rightarrow> (Inl (ErrFile err), lf, s')
         | (Inr endOffset, s') \<Rightarrow>
             if unat endOffset = length (fd lf) then (Inr (), lf, s')
             else if \<not> Truncate (opt st) then (Inl ErrTruncateNeeded, lf, s')
             else if unat endOffset \<le> lfHeaderSize then
               (if fid lf \<noteq> maxFid (wal st) then (Inl errDeleteVlogFile, lf, s')
                else (case bootstrap env lf of (r, lf') \<Rightarrow> (r, lf', s')))
             else (Inr (), lf\<lparr>fd := ftruncate (unat endOffset) (fd lf)\<rparr>, s')))"

text \<open>A caller's function that records what it is given.\<close>

definition recordFn :: "(Entry \<times> valuePointer) list \<Rightarrow> Entry \<Rightarrow> valuePointer \<Rightarrow> error + (Entry \<times> valuePointer) list" where
  "recordFn log e vp = Inr (log @ [(e, vp)])"

text \<open>
  A write-ahead log as the writer lays it out: the record of an entry at an offset is
  what \<^verbatim>\<open>encodeEntry\<close> appends for it there, and the records of a list of entries follow
  one another. \<open>delivered\<close> is what a reader hands on for them: the entry with its offset
  and header length, and the pointer to its record.
\<close>

definition recordOf :: "keystream \<Rightarrow> logFile \<Rightarrow> 32 word \<Rightarrow> Entry \<Rightarrow> bytes" where
  "recordOf ks lf off e =
     Encode (headerOf e) @ ENC ks lf off (Key e @ Value e) @
     PutUint32 (crc32c (Encode (headerOf e) @ ENC ks lf off (Key e @ Value e)))"

fun layout :: "keystream \<Rightarrow> logFile \<Rightarrow> 32 word \<Rightarrow> Entry list \<Rightarrow> bytes" where
  "layout ks lf off [] = []"
| "layout ks lf off (e # es) =
     recordOf ks lf off e @ layout ks lf (off + of_nat (recordLen e)) es"

fun delivered :: "logFile \<Rightarrow> 32 word \<Rightarrow> Entry list \<Rightarrow> (Entry \<times> valuePointer) list" where
  "delivered lf off [] = []"
| "delivered lf off (e # es) =
     (e\<lparr>offset := off, skipVlog := False, hlen := length (Encode (headerOf e))\<rparr>,
      \<lparr>Fid = fid lf, Len = of_nat (recordLen e), Offset = off\<rparr>) #
     delivered lf (off + of_nat (recordLen e)) es"

text \<open>
  Invariant 6 of the spec: the records of a transaction carry \<^verbatim>\<open>TXN\<close> and its commit
  timestamp in their keys, and the last one is the commit marker, whose value is the
  timestamp in decimal. A torn transaction lacks the marker.
\<close>

definition isTxnEntry :: "64 word \<Rightarrow> Entry \<Rightarrow> bool" where
  "isTxnEntry ts e = (0 < meta e AND bitTxn \<and> ParseTs (Key e) = ts)"

definition isCommit :: "64 word \<Rightarrow> Entry \<Rightarrow> bool" where
  "isCommit ts e =
     (\<not> 0 < meta e AND bitTxn \<and> 0 < meta e AND bitFinTxn \<and> ParseUint (Value e) = Some ts)"

definition committedTxn :: "64 word \<times> Entry list \<Rightarrow> bool" where
  "committedTxn g =
     (2 \<le> length (snd g) \<and> list_all (isTxnEntry (fst g)) (butlast (snd g)) \<and>
      isCommit (fst g) (last (snd g)))"

definition tornTxn :: "64 word \<Rightarrow> Entry list \<Rightarrow> bool" where
  "tornTxn ts es = (es \<noteq> [] \<and> list_all (isTxnEntry ts) es)"

definition fitsRecord :: "Entry \<Rightarrow> bool" where
  "fitsRecord e = (length (Key e) \<le> 2 ^ 16 \<and> length (Key e) + length (Value e) < 2 ^ 32)"

definition testEnv :: "keystream \<Rightarrow> env" where
  "testEnv ks = \<lparr>aesCTR = ks, latestDataKey = (\<lambda>p. Inr None), cryptoRand = (\<lambda>p. Inr (replicate 12 0))\<rparr>"

definition cx2_e1 :: Entry where
  "cx2_e1 = mkEntry [0x6B, 0, 0, 0, 0, 0, 0, 0, 10] [0x76] 0x40"

definition cx2_fin :: Entry where
  "cx2_fin = mkEntry [0x63, 0, 0, 0, 0, 0, 0, 0, 10] [0x31, 0x30] 0x80"

definition cx2_e3 :: Entry where
  "cx2_e3 = mkEntry [0x6D, 0, 0, 0, 0, 0, 0, 0, 20] [0x77] 0x40"

definition cx2_file :: logFile where
  "cx2_file =
     plainFile walFile 0
       (replicate 20 0 @ layout noKeystream (plainFile walFile 0 []) 20 [cx2_e1, cx2_fin, cx2_e3])"

definition cx2_state :: valueLog where
  "cx2_state = mkState (mkLog [] 0 0) (mkLog [(0, cx2_file)] 0 20)"

definition wit2_file :: logFile where
  "wit2_file =
     cipherFile walFile 0
       (replicate 20 0 @ layout toyKeystream (cipherFile walFile 0 []) 20 [cx2_e1, cx2_fin, cx2_e3])"

definition wit2_state :: valueLog where
  "wit2_state = mkState (mkLog [] 0 0) (mkLog [(0, wit2_file)] 0 20)"

subsection \<open>The writer (lines 1064--1133, 1551--1752, 2285--2313)\<close>

text \<open>
  Modelled from the spec: \<^verbatim>\<open>db.shouldWriteValueToLSM\<close> is not in \<^verbatim>\<open>value.go\<close>. Section 4.3,
  step 3: the value stays in the LSM tree when \<^verbatim>\<open>len(value) < value_threshold\<close>.
\<close>

definition shouldWriteValueToLSM :: "Options \<Rightarrow> Entry \<Rightarrow> bool" where
  "shouldWriteValueToLSM opts e = (int (length (Value e)) < ValueThreshold opts)"

definition getCurrentFile :: "fileType \<Rightarrow> valueLog \<Rightarrow> filePtr" where
  "getCurrentFile lw st =
     (case map_of (filesMap (logOf lw st)) (maxFid (logOf lw st)) of
        None \<Rightarrow> None
      | Some f \<Rightarrow> Some (lw, maxFid (logOf lw st)))"

text \<open>
  \<^verbatim>\<open>estimateRequestSize\<close> and \<^verbatim>\<open>validateWrites\<close>, in \<^verbatim>\<open>uint64\<close>. The loop carries
  \<^verbatim>\<open>vlogOffset\<close>.
\<close>

definition estimateRequestSize :: "request \<Rightarrow> 64 word" where
  "estimateRequestSize r =
     foldl (\<lambda>sz e. sz + of_nat (maxHeaderSize + length (Key e) + length (Value e) + 4)) 0
       (Entries r)"

fun validateLoop :: "Options \<Rightarrow> 64 word \<Rightarrow> request list \<Rightarrow> error + unit" where
  "validateLoop opts vlogOffset [] = Inr ()"
| "validateLoop opts vlogOffset (r # rs) =
     (let estimatedVlogOffset = vlogOffset + estimateRequestSize r
      in if of_nat maxVlogFileSize < estimatedVlogOffset
         then Inl (ErrSizeExceeded (unat estimatedVlogOffset))
         else if word_of_int (ValueLogFileSize opts) \<le> estimatedVlogOffset
         then validateLoop opts 0 rs
         else validateLoop opts estimatedVlogOffset rs)"

definition validateWrites :: "valueLog \<Rightarrow> request list \<Rightarrow> error + unit" where
  "validateWrites st reqs = validateLoop (opt st) (ucast (writableOffset (wal st))) reqs"

text \<open>
  \<^verbatim>\<open>createLogFile\<close>: the new state and the pointer to the new file. The file must not
  exist; when \<^verbatim>\<open>bootstrap\<close> fails the file is removed again. The message to the cleaner of
  the write-ahead log (\<^verbatim>\<open>purgeOldFiles\<close>) goes to another goroutine.
\<close>

definition createLogFile ::
  "env \<Rightarrow> valueLog \<Rightarrow> 32 word \<Rightarrow> fileType \<Rightarrow> (valueLog \<times> (fileType \<times> 32 word)) res" where
  "createLogFile env st i ft =
     (let lf = \<lparr>path = fpath i ft, fd = [], fid = i, fmap = [], lf_size = 0,
                loadingMode = (if ft = walFile then FileIO else ValueLogLoadingMode (opt st)),
                dataKey = None, baseIV = [], fileType = ft\<rparr>
      in if path lf \<in> set (dir st) then Inl (ErrFile ErrExist, st)
         else
           (case bootstrap env lf of
              (Inl err, lf1) \<Rightarrow> Inl (err, st)
            | (Inr u, lf1) \<Rightarrow>
                (let lf2 = mmap (nat (2 * ValueLogFileSize (opt st))) lf1;
                     st1 = st\<lparr>dir := path lf # dir st\<rparr>;
                     lw = logOf ft st1;
                     st2 = setLog ft (lw\<lparr>filesMap := mapPut i lf2 (filesMap lw)\<rparr>) st1
                 in if \<not> (i = 0 \<or> maxFid lw < i) then Inl (Panic, st2)
                    else Inr (setLog ft
                                ((logOf ft st2)\<lparr>maxFid := i, writableOffset := of_nat lfHeaderSize,
                                                 numEntriesWritten := 0\<rparr>) st2,
                              (ft, i)))))"

text \<open>
  \<^verbatim>\<open>rotateFile\<close> of the log set \<open>lw\<close> with its current file \<open>lf\<close>: the new state and the
  pointer to the new file.
\<close>

definition rotateFile ::
  "env \<Rightarrow> fileType \<Rightarrow> filePtr \<Rightarrow> valueLog \<Rightarrow> (valueLog \<times> filePtr) res" where
  "rotateFile env lw lf st =
     (let off = writableOffset (logOf lw st);
          newid = maxFid (logOf lw st) + 1
      in if off = 0 then Inl (Panic, st)
         else
           (case lf of
              None \<Rightarrow> Inl (Panic, st)
            | Some p \<Rightarrow>
                (case deref st p of
                   None \<Rightarrow> Inl (Panic, st)
                 | Some f \<Rightarrow>
                     if fid f \<noteq> maxFid (logOf lw st) then Inl (Panic, st)
                     else
                       (case doneWriting f off of
                          Inl err \<Rightarrow> Inl (err, st)
                        | Inr f' \<Rightarrow>
                            (let st1 = modifyFile p (\<lambda>g. f') st
                             in if newid = 0 then Inl (Panic, st1)
                                else
                                  ebind (createLogFile env st1 newid (fileType f)) (\<lambda>(st2, q).
                                    Inr (if fileType f = walFile
                                         then st2\<lparr>logRotates := logRotates st2 + 1\<rparr>
                                         else st2,
                                         Some q)))))))"

text \<open>The variables of \<^verbatim>\<open>write\<close>: the state, the two current files and the two buffers.\<close>

record wstate =
  vl :: valueLog
  curVlogF :: filePtr
  curWALF :: filePtr
  wbuf :: bytes
  vbuf :: bytes

text \<open>
  \<^verbatim>\<open>flushBufToFile(buf, lf, lw)\<close> (lines 1608--1623): the emptied buffer and the new state.
\<close>

definition flushBufToFile ::
  "bytes \<Rightarrow> filePtr \<Rightarrow> fileType \<Rightarrow> valueLog \<Rightarrow> (bytes \<times> valueLog) res" where
  "flushBufToFile buf lf lw st =
     (if buf = [] then Inr (buf, st)
      else
        (case lf of
           None \<Rightarrow> Inl (Panic, st)
         | Some p \<Rightarrow>
             (let st1 = modifyFile p (fdWrite buf) st;
                  w = logOf lw st1
              in if \<not> writableOffset w < writableOffset w + of_nat (length buf)
                 then Inl (Panic, st1)
                 else
                   (let st2 = setLog lw
                                (w\<lparr>writableOffset := writableOffset w + of_nat (length buf)\<rparr>) st1
                    in Inr ([], modifyFile p
                                  (\<lambda>f. f\<lparr>lf_size := writableOffset (logOf lw st2)\<rparr>) st2)))))"

definition flushWAL :: "wstate \<Rightarrow> wstate res" where
  "flushWAL w =
     ebind (flushBufToFile (wbuf w) (curWALF w) walFile (vl w))
       (\<lambda>(b, st). Inr (w\<lparr>wbuf := b, vl := st\<rparr>))"

definition flushVLOG :: "wstate \<Rightarrow> wstate res" where
  "flushVLOG w =
     ebind (flushBufToFile (vbuf w) (curVlogF w) vlogFile (vl w))
       (\<lambda>(b, st). Inr (w\<lparr>vbuf := b, vl := st\<rparr>))"

definition flushWrites :: "wstate \<Rightarrow> wstate res" where
  "flushWrites w = ebind (flushWAL w) flushVLOG"

definition toDisk :: "env \<Rightarrow> wstate \<Rightarrow> wstate res" where
  "toDisk env w =
     ebind (flushWrites w) (\<lambda>w1.
     ebind (if word_of_int (ValueLogFileSize (opt (vl w1))) < writableOffset (vlog (vl w1)) \<or>
               ValueLogMaxEntries (opt (vl w1)) < numEntriesWritten (vlog (vl w1))
            then ebind (rotateFile env vlogFile (curVlogF w1) (vl w1))
                   (\<lambda>(st, p). Inr (w1\<lparr>vl := st, curVlogF := p\<rparr>))
            else Inr w1) (\<lambda>w2.
       if word_of_int (ValueLogFileSize (opt (vl w2))) < writableOffset (wal (vl w2)) \<or>
          ValueLogMaxEntries (opt (vl w2)) < numEntriesWritten (wal (vl w2))
       then ebind (rotateFile env walFile (curWALF w2) (vl w2))
              (\<lambda>(st, p). Inr (w2\<lparr>vl := st, curWALF := p\<rparr>))
       else Inr w2))"

text \<open>
  The body of the loop over the entries of a request (lines 1664--1735), for the entry
  at index \<open>j\<close>. The entry is changed in place for the encoding into the value log and
  changed back.
\<close>

record rstate =
  ws :: wstate
  req :: request
  vlogWritten :: nat
  walWritten :: nat

definition writeEntry :: "env \<Rightarrow> rstate \<Rightarrow> nat \<Rightarrow> rstate res" where
  "writeEntry env rs j =
     (let b = req rs; w = ws rs; e = Entries b ! j
      in if skipVlog e then Inr (rs\<lparr>req := b\<lparr>Ptrs := Ptrs b @ [zeroPtr]\<rparr>\<rparr>)
         else
           (let wOffset = writableOffset (wal (vl w)) + of_nat (length (wbuf w))
            in case curWALF w of
                 None \<Rightarrow> Inl (Panic, vl w)
               | Some pw \<Rightarrow>
              (case deref (vl w) pw of
                 None \<Rightarrow> Inl (Panic, vl w)
               | Some walf \<Rightarrow>
              (case encodeEntry (aesCTR env) walf e (wbuf w) wOffset of
                 Inl err \<Rightarrow> Inl (err, vl w)
               | Inr (wbuf1, l) \<Rightarrow>
              (let b1 = b\<lparr>head := \<lparr>Fid = fid walf, Len = of_nat l, Offset = wOffset\<rparr>\<rparr>
               in if \<not> writableOffset (wal (vl w)) \<le> wOffset then Inl (Panic, vl w)
                  else
                    ebind (if ValueLogFileSize (opt (vl w)) < int (length wbuf1)
                           then flushWAL (w\<lparr>wbuf := wbuf1\<rparr>)
                           else Inr (w\<lparr>wbuf := wbuf1\<rparr>)) (\<lambda>w1.
                    let rs1 = rs\<lparr>ws := w1, req := b1, walWritten := walWritten rs + 1\<rparr>
                    in if shouldWriteValueToLSM (opt (vl w1)) e
                       then Inr (rs1\<lparr>req := b1\<lparr>Ptrs := Ptrs b1 @ [zeroPtr]\<rparr>\<rparr>)
                       else
                         ebind (if filesMap (vlog (vl w1)) = []
                                then ebind (createLogFile env (vl w1) 0 vlogFile)
                                       (\<lambda>(st, p). Inr (w1\<lparr>vl := st, curVlogF := Some p\<rparr>))
                                else Inr w1) (\<lambda>w2.
                         let meta0 = meta e;
                             b2 = b1\<lparr>Entries := (Entries b1)
                                     [j := e\<lparr>meta := meta e AND NOT (bitTxn OR bitFinTxn)\<rparr>]\<rparr>
                         in case curVlogF w2 of
                              None \<Rightarrow> Inl (Panic, vl w2)
                            | Some pv \<Rightarrow>
                           (case deref (vl w2) pv of
                              None \<Rightarrow> Inl (Panic, vl w2)
                            | Some vlogf \<Rightarrow>
                           (let pOffset = writableOffset (vlog (vl w2)) + of_nat (length (vbuf w2));
                                r = encodeEntry (aesCTR env) vlogf (Entries b2 ! j) (vbuf w2) pOffset;
                                b3 = b2\<lparr>Entries := (Entries b2)
                                        [j := (Entries b2 ! j)\<lparr>meta := meta0\<rparr>]\<rparr>
                            in case r of
                                 Inl err \<Rightarrow> Inl (err, vl w2)
                               | Inr (vbuf1, plen) \<Rightarrow>
                                   (let p = \<lparr>Fid = fid vlogf, Len = of_nat plen, Offset = pOffset\<rparr>;
                                        b4 = b3\<lparr>Ptrs := Ptrs b3 @ [p]\<rparr>
                                    in ebind (if ValueLogFileSize (opt (vl w2)) < int (length vbuf1)
                                              then flushVLOG (w2\<lparr>vbuf := vbuf1\<rparr>)
                                              else Inr (w2\<lparr>vbuf := vbuf1\<rparr>)) (\<lambda>w3.
                                         Inr (rs1\<lparr>ws := w3, req := b4,
                                                  vlogWritten := vlogWritten rs + 1\<rparr>))))))))))))"

fun writeEntries :: "env \<Rightarrow> rstate \<Rightarrow> nat list \<Rightarrow> rstate res" where
  "writeEntries env rs [] = Inr rs"
| "writeEntries env rs (j # js) = ebind (writeEntry env rs j) (\<lambda>rs'. writeEntries env rs' js)"

text \<open>The body of the loop over the requests (lines 1659--1750).\<close>

definition writeRequest :: "env \<Rightarrow> wstate \<Rightarrow> request \<Rightarrow> (wstate \<times> request) res" where
  "writeRequest env w b =
     ebind (writeEntries env \<lparr>ws = w, req = b\<lparr>Ptrs := []\<rparr>, vlogWritten = 0, walWritten = 0\<rparr>
              [0..<length (Entries b)]) (\<lambda>rs.
       let w0 = ws rs;
           st = vl w0;
           st1 = st\<lparr>wal := (wal st)\<lparr>numEntriesWritten :=
                                        numEntriesWritten (wal st) + of_nat (walWritten rs)\<rparr>,
                    vlog := (vlog st)\<lparr>numEntriesWritten :=
                                        numEntriesWritten (vlog st) + of_nat (vlogWritten rs)\<rparr>\<rparr>;
           w1 = w0\<lparr>vl := st1\<rparr>;
           writeNow =
             (word_of_int (ValueLogFileSize (opt st1)) <
                writableOffset (wal st1) + of_nat (length (wbuf w1)) \<or>
              ValueLogMaxEntries (opt st1) < numEntriesWritten (wal st1) \<or>
              word_of_int (ValueLogFileSize (opt st1)) <
                writableOffset (vlog st1) + of_nat (length (vbuf w1)) \<or>
              ValueLogMaxEntries (opt st1) < numEntriesWritten (vlog st1))
       in ebind (if writeNow then toDisk env w1 else Inr w1) (\<lambda>w2. Inr (w2, req rs)))"

fun writeRequests :: "env \<Rightarrow> wstate \<Rightarrow> request list \<Rightarrow> (wstate \<times> request list) res" where
  "writeRequests env w [] = Inr (w, [])"
| "writeRequests env w (b # bs) =
     ebind (writeRequest env w b) (\<lambda>(w1, b').
     ebind (writeRequests env w1 bs) (\<lambda>(w2, bs'). Inr (w2, b' # bs')))"

text \<open>\<^verbatim>\<open>valueLog.write\<close>: the new state and the requests with their pointers and heads.\<close>

definition valueLog_write :: "env \<Rightarrow> valueLog \<Rightarrow> request list \<Rightarrow> (valueLog \<times> request list) res" where
  "valueLog_write env st reqs =
     (if InMemory (opt st) then Inr (st, reqs)
      else
        (case validateWrites st reqs of
           Inl err \<Rightarrow> Inl (err, st)
         | Inr u \<Rightarrow>
             ebind (writeRequests env
                      \<lparr>vl = st, curVlogF = getCurrentFile vlogFile st,
                       curWALF = getCurrentFile walFile st, wbuf = [], vbuf = []\<rparr> reqs)
               (\<lambda>(w, reqs'). ebind (toDisk env w) (\<lambda>w'. Inr (vl w', reqs')))))"

section \<open>Properties\<close>

subsection \<open>Library facts\<close>

lemma ebind_simps [simp]:
  "ebind (Inl err) f = Inl err"
  "ebind (Inr x) f = f x"
  by (simp_all add: ebind_def)

lemma BytesToU32_PutUint32: "BytesToU32 (PutUint32 v) = v"
proof (rule bit_word_eqI)
  fix n :: nat
  assume n: "n < LENGTH(32)"
  show "bit (BytesToU32 (PutUint32 v)) n = bit v n"
  proof (cases "bit v n")
    case True
    with n show ?thesis
      unfolding BytesToU32_def PutUint32_def
      by (simp add: bit_or_iff bit_push_bit_iff bit_ucast_iff bit_drop_bit_eq cong: conj_cong) arith
  next
    case False
    with n show ?thesis
      unfolding BytesToU32_def PutUint32_def
      by (simp add: bit_or_iff bit_push_bit_iff bit_ucast_iff bit_drop_bit_eq cong: conj_cong)
  qed
qed

lemma length_PutUint32 [simp]: "length (PutUint32 v) = 4"
  by (simp add: PutUint32_def)

declare PutUvarint.simps [simp del]

lemma byte_of_small: "x < 256 \<Longrightarrow> unat (of_nat x :: byte) = x"
  by (simp add: unat_of_nat)

lemma Uvarint_PutUvarint: "Uvarint (PutUvarint x @ rest) = Some (x, length (PutUvarint x))"
proof (induction x rule: PutUvarint.induct)
  case (1 x)
  show ?case
  proof (cases "x < 128")
    case True
    then have u: "unat (of_nat x :: byte) = x" by (simp add: byte_of_small)
    have "(of_nat x :: byte) < 0x80" using True u by (simp add: word_less_nat_alt)
    then show ?thesis using True u by (simp add: PutUvarint.simps [of x])
  next
    case False
    have u: "unat (of_nat (x mod 128 + 128) :: byte) = x mod 128 + 128"
      by (rule byte_of_small) simp
    have nb: "\<not> (of_nat (x mod 128 + 128) :: byte) < 0x80"
      using u by (simp add: word_less_nat_alt)
    show ?thesis using False 1 u nb by (simp add: PutUvarint.simps [of x])
  qed
qed

lemma length_PutUvarint_pos: "0 < length (PutUvarint x)"
  by (simp add: PutUvarint.simps [of x])

lemma length_PutUvarint_le: "0 < n \<Longrightarrow> x < 128 ^ n \<Longrightarrow> length (PutUvarint x) \<le> n"
proof (induction n arbitrary: x)
  case 0
  then show ?case by simp
next
  case (Suc n)
  show ?case
  proof (cases "x < 128")
    case True
    then show ?thesis by (simp add: PutUvarint.simps [of x])
  next
    case False
    then have "0 < n" using Suc.prems by (cases n) auto
    moreover have "x div 128 < 128 ^ n"
      using Suc.prems by (simp add: less_mult_imp_div_less mult.commute)
    ultimately have "length (PutUvarint (x div 128)) \<le> n" by (rule Suc.IH)
    then show ?thesis using False by (simp add: PutUvarint.simps [of x])
  qed
qed

lemma length_PutUvarint_32: "length (PutUvarint (unat (w :: 32 word))) \<le> 5"
proof -
  have "unat w < 2 ^ 32" using unsigned_less [of w] by simp
  then have "unat w < (128::nat) ^ 5" by simp
  then show ?thesis by (intro length_PutUvarint_le) simp_all
qed

lemma length_PutUvarint_64: "length (PutUvarint (unat (w :: 64 word))) \<le> 10"
proof -
  have "unat w < 2 ^ 64" using unsigned_less [of w] by simp
  then have "unat w < (128::nat) ^ 10" by simp
  then show ?thesis by (intro length_PutUvarint_le) simp_all
qed

lemma length_Encode_le: "length (Encode h) \<le> maxHeaderSize"
  using length_PutUvarint_32 [of "klen h"] length_PutUvarint_32 [of "vlen h"]
    length_PutUvarint_64 [of "expiresAt h"]
  by (simp add: Encode_def maxHeaderSize_def)

lemma length_Encode_ge: "2 < length (Encode h)"
  using length_PutUvarint_pos [of "unat (klen h)"]
  by (simp add: Encode_def)

lemma Decode_Encode: "Decode (Encode h @ rest) = Some (h, length (Encode h))"
proof -
  let ?a = "PutUvarint (unat (klen h))"
  let ?b = "PutUvarint (unat (vlen h))"
  let ?c = "PutUvarint (unat (expiresAt h))"
  have 1: "Uvarint (?a @ ?b @ ?c @ rest) = Some (unat (klen h), length ?a)"
    by (rule Uvarint_PutUvarint)
  have 2: "Uvarint (?b @ ?c @ rest) = Some (unat (vlen h), length ?b)"
    by (rule Uvarint_PutUvarint)
  have 3: "Uvarint (?c @ rest) = Some (unat (expiresAt h), length ?c)"
    by (rule Uvarint_PutUvarint)
  show ?thesis
    by (simp add: Decode_def Encode_def 1 2 3)
qed

lemma xor_twice:
  "take (length src)
     (map (\<lambda>(i, b). b XOR k i)
        (enumerate 0 (map (\<lambda>(i, b). b XOR k i) (enumerate 0 src) @ extra))) = src"
  by (rule nth_equalityI) (auto simp: nth_enumerate_eq nth_append bit.xor_self xor.assoc)

subsection \<open>The codec\<close>

lemma length_ENC [simp]: "length (ENC ks lf off kv) = length kv"
  by (simp add: ENC_def split: option.splits)

lemma encodeEntry_eq:
  assumes "validKey lf"
  shows "encodeEntry ks lf e buf off =
    Inr (buf @ Encode (headerOf e) @ ENC ks lf off (Key e @ Value e) @
         PutUint32 (crc32c (Encode (headerOf e) @ ENC ks lf off (Key e @ Value e))),
         recordLen e)"
  using assms length_Encode_le [of "headerOf e"]
  by (auto simp add: encodeEntry_def validKey_def headerOf_def ENC_def generateIV_def
      XORBlock_def Let_def recordLen_def split: option.splits)

lemma decrypt_ENC:
  assumes "validKey lf" "dataKey lf = Some dk"
  shows "\<exists>tl. decryptKV ks lf (ENC ks lf off kv @ extra) off = Inr (kv @ tl) \<and>
              length tl = length extra"
proof -
  let ?k = "ks (Data dk) (take 12 (baseIV lf) @ PutUint32 off)"
  let ?f = "\<lambda>(i, b). b XOR ?k i"
  let ?ct = "map ?f (enumerate 0 kv)"
  let ?pt = "map ?f (enumerate 0 (?ct @ extra))"
  have t: "take (length kv) ?pt = kv" by (rule xor_twice)
  have l: "length ?pt = length kv + length extra" by simp
  have "?pt = take (length kv) ?pt @ drop (length kv) ?pt" by simp
  then have "?pt = kv @ drop (length kv) ?pt" using t by simp
  moreover have "length (drop (length kv) ?pt) = length extra" using l by simp
  moreover have "decryptKV ks lf (ENC ks lf off kv @ extra) off = Inr ?pt"
    using assms
    by (auto simp add: decryptKV_def generateIV_def XORBlock_def validKey_def ENC_def)
  ultimately show ?thesis by metis
qed

lemma decrypt_ENC_exact:
  assumes "validKey lf" "encryptionEnabled lf"
  shows "decryptKV ks lf (ENC ks lf off kv) off = Inr kv"
proof -
  obtain dk where dk: "dataKey lf = Some dk"
    using assms(2) by (auto simp: encryptionEnabled_def)
  from decrypt_ENC [OF assms(1) dk, of ks off kv "[]"] show ?thesis by auto
qed

lemma unat_klen: "length k \<le> 2 ^ 16 \<Longrightarrow> unat (of_nat (length k) :: 32 word) = length k"
  by (simp add: unat_of_nat)

lemma unat_sum:
  assumes "length k + length v < 2 ^ 32"
  shows "unat ((of_nat (length k) :: 32 word) + of_nat (length v)) = length k + length v"
proof -
  have "(of_nat (length k) :: 32 word) + of_nat (length v) = of_nat (length k + length v)"
    by simp
  then show ?thesis using assms by (simp only: unat_of_nat) simp
qed

lemma decodeEntry_roundtrip:
  assumes vk: "validKey lf"
    and k: "length (Key e) \<le> 2 ^ 16"
    and kv: "length (Key e) + length (Value e) < 2 ^ 32"
  shows "decodeEntry ks lf (Encode (headerOf e) @ ENC ks lf off (Key e @ Value e) @ crc) off =
     Inr (e\<lparr>offset := off, skipVlog := False, hlen := 0\<rparr>)"
proof -
  let ?h = "headerOf e"
  let ?body = "ENC ks lf off (Key e @ Value e)"
  have d: "Decode (Encode ?h @ ?body @ crc) = Some (?h, length (Encode ?h))"
    by (rule Decode_Encode)
  have uk: "unat (klen ?h) = length (Key e)" using k by (simp add: headerOf_def unat_klen)
  have us: "unat (klen ?h + vlen ?h) = length (Key e) + length (Value e)"
    using kv by (simp add: headerOf_def unat_sum)
  have s0: "goSlice (Encode ?h @ ?body @ crc) (length (Encode ?h))
              (length (Encode ?h @ ?body @ crc)) = Inr (?body @ crc)"
    by (simp add: goSlice_def)
  obtain kvp where dec:
    "(if encryptionEnabled lf then decryptKV ks lf (?body @ crc) off else Inr (?body @ crc))
      = Inr (Key e @ Value e @ kvp)"
  proof (cases "dataKey lf")
    case None
    then have
      "(if encryptionEnabled lf then decryptKV ks lf (?body @ crc) off else Inr (?body @ crc))
        = Inr (Key e @ Value e @ crc)"
      by (simp add: encryptionEnabled_def ENC_def)
    then show ?thesis using that by blast
  next
    case (Some dk)
    from decrypt_ENC [OF vk Some, of ks off "Key e @ Value e" crc]
    obtain tl where "decryptKV ks lf (?body @ crc) off = Inr ((Key e @ Value e) @ tl)" by blast
    then show ?thesis using that Some by (simp add: encryptionEnabled_def)
  qed
  have s1: "goSlice (Key e @ Value e @ kvp) 0 (length (Key e)) = Inr (Key e)"
    by (simp add: goSlice_def)
  have s2: "goSlice (Key e @ Value e @ kvp) (length (Key e)) (length (Key e) + length (Value e))
              = Inr (Value e)"
    by (simp add: goSlice_def)
  show ?thesis
    unfolding decodeEntry_def d
    by (simp only: option.case prod.case s0 ebind_simps dec uk us s1 s2) (simp add: headerOf_def)
qed

lemma safeRead_Entry_roundtrip:
  assumes vk: "validKey lf"
    and k: "length (Key e) \<le> 2 ^ 16"
    and kv: "length (Key e) + length (Value e) < 2 ^ 32"
  shows "safeRead_Entry ks lf off
           (Encode (headerOf e) @ ENC ks lf off (Key e @ Value e) @
            PutUint32 (crc32c (Encode (headerOf e) @ ENC ks lf off (Key e @ Value e))) @ rest) =
     Inr (e\<lparr>offset := off, skipVlog := False, hlen := length (Encode (headerOf e))\<rparr>, rest)"
proof -
  let ?h = "headerOf e"
  let ?body = "ENC ks lf off (Key e @ Value e)"
  let ?crc = "PutUint32 (crc32c (Encode ?h @ ?body))"
  have d: "DecodeFrom (Encode ?h @ ?body @ ?crc @ rest) = Inr (?h, length (Encode ?h))"
    by (simp add: DecodeFrom_def Decode_Encode)
  have uk: "unat (klen ?h) = length (Key e)" using k by (simp add: headerOf_def unat_klen)
  have kl: "\<not> 65536 < klen ?h"
    using k uk by (simp add: word_less_nat_alt)
  have us: "unat (klen ?h + vlen ?h) = length (Key e) + length (Value e)"
    using kv by (simp add: headerOf_def unat_sum)
  have r1: "ReadFull (drop (length (Encode ?h)) (Encode ?h @ ?body @ ?crc @ rest))
              (length (Key e) + length (Value e)) = Inr (?body, ?crc @ rest)"
    by (simp add: ReadFull_def)
  have dec: "(if encryptionEnabled lf then decryptKV ks lf ?body off else Inr ?body)
              = Inr (Key e @ Value e)"
    using decrypt_ENC_exact [OF vk] by (auto simp add: encryptionEnabled_def ENC_def)
  have s1: "goSlice (Key e @ Value e) 0 (length (Key e)) = Inr (Key e)"
    by (simp add: goSlice_def)
  have s2: "goSlice (Key e @ Value e) (length (Key e)) (length (Key e @ Value e)) = Inr (Value e)"
    by (simp add: goSlice_def)
  have r2: "ReadFull (?crc @ rest) 4 = Inr (?crc, rest)"
    by (simp add: ReadFull_def)
  have tk: "take (length (Encode ?h)) (Encode ?h @ ?body @ ?crc @ rest) = Encode ?h" by simp
  show ?thesis
    unfolding safeRead_Entry_def d
    by (simp only: ebind_simps prod.case kl if_False us r1 sum.case dec uk s1 s2 r2 tk
        BytesToU32_PutUint32 simp_thms) (simp add: headerOf_def)
qed

text \<open>
  C1, as amended. For every entry whose key has at most \<open>2^16\<close> bytes and whose key and
  value together have fewer than \<open>2^32\<close> bytes, for every offset and every well keyed
  file (plain or encrypted), \<^verbatim>\<open>encodeEntry\<close> succeeds, and both \<^verbatim>\<open>decodeEntry\<close> on the
  bytes it wrote and \<^verbatim>\<open>safeRead.Entry\<close> on a stream that starts with them give the entry
  back: the same key, value, meta, user meta and expiry.
\<close>

theorem codec_roundtrip:
  assumes "validKey lf"
    and "length (Key e) \<le> 2 ^ 16"
    and "length (Key e) + length (Value e) < 2 ^ 32"
  shows "\<exists>rec. encodeEntry ks lf e buf off = Inr (buf @ rec, length rec) \<and>
           decodeEntry ks lf rec off = Inr (e\<lparr>offset := off, skipVlog := False, hlen := 0\<rparr>) \<and>
           safeRead_Entry ks lf off (rec @ rest) =
             Inr (e\<lparr>offset := off, skipVlog := False, hlen := length (Encode (headerOf e))\<rparr>, rest)"
proof -
  let ?rec = "Encode (headerOf e) @ ENC ks lf off (Key e @ Value e) @
       PutUint32 (crc32c (Encode (headerOf e) @ ENC ks lf off (Key e @ Value e)))"
  have "encodeEntry ks lf e buf off = Inr (buf @ ?rec, length ?rec)"
    using encodeEntry_eq [OF assms(1)] by (simp add: recordLen_def)
  moreover have "decodeEntry ks lf ?rec off = Inr (e\<lparr>offset := off, skipVlog := False, hlen := 0\<rparr>)"
    by (rule decodeEntry_roundtrip [OF assms])
  moreover have "safeRead_Entry ks lf off (?rec @ rest) =
      Inr (e\<lparr>offset := off, skipVlog := False, hlen := length (Encode (headerOf e))\<rparr>, rest)"
    using safeRead_Entry_roundtrip [OF assms, of ks off rest] by simp
  ultimately show ?thesis by blast
qed

theorem codec_roundtrip_witness:
  "validKey (cipherFile walFile 0 []) \<and>
   length (Key (mkEntry [1, 2, 3] [4, 5] 0x40)) \<le> 2 ^ 16 \<and>
   length (Key (mkEntry [1, 2, 3] [4, 5] 0x40)) + length (Value (mkEntry [1, 2, 3] [4, 5] 0x40)) < 2 ^ 32 \<and>
   (\<exists>rec. encodeEntry toyKeystream (cipherFile walFile 0 []) (mkEntry [1, 2, 3] [4, 5] 0x40) [] 20
             = Inr ([] @ rec, length rec) \<and>
      decodeEntry toyKeystream (cipherFile walFile 0 []) rec 20
             = Inr ((mkEntry [1, 2, 3] [4, 5] 0x40)\<lparr>offset := 20, skipVlog := False, hlen := 0\<rparr>) \<and>
      safeRead_Entry toyKeystream (cipherFile walFile 0 []) 20 (rec @ [])
             = Inr ((mkEntry [1, 2, 3] [4, 5] 0x40)
                      \<lparr>offset := 20, skipVlog := False,
                       hlen := length (Encode (headerOf (mkEntry [1, 2, 3] [4, 5] 0x40)))\<rparr>, []))"
proof -
  have a: "validKey (cipherFile walFile 0 [])"
    by (simp add: validKey_def cipherFile_def)
  have b: "length (Key (mkEntry [1, 2, 3] [4, 5] 0x40)) \<le> 2 ^ 16"
    by (simp add: mkEntry_def)
  have c: "length (Key (mkEntry [1, 2, 3] [4, 5] 0x40)) +
           length (Value (mkEntry [1, 2, 3] [4, 5] 0x40)) < 2 ^ 32"
    by (simp add: mkEntry_def)
  show ?thesis
    using a b c codec_roundtrip [OF a b c, of toyKeystream "[]" 20 "[]"] by blast
qed

lemma cx1_header:
  "headerOf (mkEntry [0] (replicate (2 ^ 32 - 1) 0) 0) =
     \<lparr>klen = 1, vlen = 0xFFFFFFFF, expiresAt = 0, hmeta = 0, userMeta = 0\<rparr>"
  by (simp add: headerOf_def mkEntry_def)

lemma cx1_encode:
  "encodeEntry noKeystream (plainFile walFile 0 []) (mkEntry [0] (replicate (2 ^ 32 - 1) 0) 0) [] 20
     = Inr (cx1_record, length cx1_record)"
proof -
  have vk: "validKey (plainFile walFile 0 [])" by (simp add: validKey_def plainFile_def)
  show ?thesis
    unfolding encodeEntry_eq [OF vk] recordLen_def cx1_header
    by (simp add: cx1_record_def ENC_def plainFile_def mkEntry_def)
qed

lemma cx1_decode: "decodeEntry noKeystream (plainFile walFile 0 []) cx1_record 20 = Inl Panic"
proof -
  let ?h = "\<lparr>klen = 1, vlen = 0xFFFFFFFF, expiresAt = 0, hmeta = 0, userMeta = 0\<rparr> :: header"
  let ?tl = "[0] @ replicate (2 ^ 32 - 1) 0 @
             PutUint32 (crc32c (Encode ?h @ [0] @ replicate (2 ^ 32 - 1) 0))"
  have d: "Decode (Encode ?h @ ?tl) = Some (?h, length (Encode ?h))" by (rule Decode_Encode)
  have s0: "goSlice (Encode ?h @ ?tl) (length (Encode ?h)) (length (Encode ?h @ ?tl)) = Inr ?tl"
    by (simp add: goSlice_def)
  have e: "\<not> encryptionEnabled (plainFile walFile 0 [])"
    by (simp add: encryptionEnabled_def plainFile_def)
  have s1: "goSlice ?tl 0 (unat (klen ?h)) = Inr [0]" by (simp add: goSlice_def)
  have w: "klen ?h + vlen ?h = 0" by simp
  have s2: "goSlice ?tl (unat (klen ?h)) (unat (klen ?h + vlen ?h)) = Inl Panic"
    unfolding w by (simp add: goSlice_def)
  show ?thesis
    unfolding decodeEntry_def cx1_record_def d
    by (simp only: option.case prod.case s0 ebind_simps e if_False s1 s2)
qed

lemma cx1_read: "safeRead_Entry noKeystream (plainFile walFile 0 []) 20 cx1_record = Inl Panic"
proof -
  let ?h = "\<lparr>klen = 1, vlen = 0xFFFFFFFF, expiresAt = 0, hmeta = 0, userMeta = 0\<rparr> :: header"
  let ?tl = "[0] @ replicate (2 ^ 32 - 1) 0 @
             PutUint32 (crc32c (Encode ?h @ [0] @ replicate (2 ^ 32 - 1) 0))"
  have d: "DecodeFrom (Encode ?h @ ?tl) = Inr (?h, length (Encode ?h))"
    by (simp add: DecodeFrom_def Decode_Encode)
  have kl: "\<not> 65536 < klen ?h" by simp
  have w: "unat (klen ?h + vlen ?h) = 0" by simp
  have r1: "ReadFull (drop (length (Encode ?h)) (Encode ?h @ ?tl)) 0 = Inr ([], ?tl)"
    by (simp add: ReadFull_def)
  have e: "\<not> encryptionEnabled (plainFile walFile 0 [])"
    by (simp add: encryptionEnabled_def plainFile_def)
  have s1: "goSlice ([] :: bytes) 0 (unat (klen ?h)) = Inl Panic" by (simp add: goSlice_def)
  show ?thesis
    unfolding safeRead_Entry_def cx1_record_def d
    by (simp only: ebind_simps prod.case kl if_False w r1 sum.case e s1)
qed

text \<open>
  C1 as stated fails at the upper end of its range. A one-byte key with a value of
  \<open>2^32 - 1\<close> bytes is within the stated bounds; \<^verbatim>\<open>encodeEntry\<close> writes its record, and on
  that record the sum \<^verbatim>\<open>h.klen + h.vlen\<close> wraps to 0 in \<^verbatim>\<open>uint32\<close>, so that
  \<^verbatim>\<open>decodeEntry\<close> slices \<^verbatim>\<open>kv[1:0]\<close> and \<^verbatim>\<open>safeRead.Entry\<close> slices an empty buffer at 1:
  both panic instead of returning the entry.
\<close>

theorem codec_roundtrip_counterexample:
  "length (Key (mkEntry [0] (replicate (2 ^ 32 - 1) 0) 0)) \<le> 2 ^ 16 \<and>
   length (Value (mkEntry [0] (replicate (2 ^ 32 - 1) 0) 0)) \<le> 2 ^ 32 - 1 \<and>
   encodeEntry noKeystream (plainFile walFile 0 []) (mkEntry [0] (replicate (2 ^ 32 - 1) 0) 0) [] 20
     = Inr (cx1_record, length cx1_record) \<and>
   decodeEntry noKeystream (plainFile walFile 0 []) cx1_record 20 = Inl Panic \<and>
   safeRead_Entry noKeystream (plainFile walFile 0 []) 20 cx1_record = Inl Panic"
  using cx1_encode cx1_decode cx1_read by (simp add: mkEntry_def)

subsection \<open>Checksums\<close>







subsection \<open>Discarding\<close>



subsection \<open>Picking a file\<close>

lemma cx8_fids: "sortedFids (vlog cx8_state) = [0, 1]"
  by (simp add: sortedFids_def cx8_state_def mkState_def mkLog_def)

text \<open>
  C8 does not hold of the code. With the files 0 and 1, file 1 the writable one, and a
  discard statistic above zero for file 1, \<^verbatim>\<open>pickLog\<close> returns file 1 as its candidate;
  with no statistics and both random draws equal to 1 it returns file 1 as the random
  choice. \<^verbatim>\<open>rewrite\<close> asserts that the file it is given lies below \<^verbatim>\<open>maxFid\<close>, and panics
  on that file.
\<close>

theorem pickLog_returns_writable_file:
  "pickLog cx8_state 0 0 =
     [Some (plainFile vlogFile 1 (replicate 20 0)), Some (plainFile vlogFile 0 (replicate 20 0))] \<and>
   pickLog (cx8_state\<lparr>lfDiscardStats := []\<rparr>) 1 1 = [Some (plainFile vlogFile 1 (replicate 20 0))] \<and>
   fid (plainFile vlogFile 1 (replicate 20 0)) = maxFid (vlog cx8_state) \<and>
   rewrite cx8_state (Some (plainFile vlogFile 1 (replicate 20 0))) Inr = Inl (Panic, cx8_state)"
proof -
  have f2: "sortedFids (vlog (cx8_state\<lparr>lfDiscardStats := []\<rparr>)) = [0, 1]"
    using cx8_fids by simp
  have a: "pickLog cx8_state 0 0 =
     [Some (plainFile vlogFile 1 (replicate 20 0)), Some (plainFile vlogFile 0 (replicate 20 0))]"
    unfolding pickLog_def cx8_fids
    by (simp add: cx8_state_def mkState_def mkLog_def)
  have b: "pickLog (cx8_state\<lparr>lfDiscardStats := []\<rparr>) 1 1 = [Some (plainFile vlogFile 1 (replicate 20 0))]"
    unfolding pickLog_def f2
    by (simp add: cx8_state_def mkState_def mkLog_def)
  have c: "fid (plainFile vlogFile 1 (replicate 20 0)) = maxFid (vlog cx8_state)"
    by (simp add: cx8_state_def mkState_def mkLog_def plainFile_def)
  have d: "rewrite cx8_state (Some (plainFile vlogFile 1 (replicate 20 0))) Inr = Inl (Panic, cx8_state)"
    using c by (simp add: rewrite_def)
  show ?thesis using a b c d by simp
qed

subsection \<open>Deferred deletion\<close>

lemma map_of_mapDelete: "map_of (mapDelete k m) j = (if j = k then None else map_of m j)"
  by (induction m) (auto simp: mapDelete_def)

lemma vlogOnDisk_lookup:
  assumes "vlogOnDisk st" "map_of (filesMap (vlog st)) i = Some lf"
  shows "fid lf = i \<and> fileType lf = vlogFile \<and> path lf = (vlogFile, i) \<and> (vlogFile, i) \<in> set (dir st)"
proof -
  have "(i, lf) \<in> set (filesMap (vlog st))" using assms(2) by (rule map_of_SomeD)
  then show ?thesis using assms(1) by (auto simp: vlogOnDisk_def list_all_iff)
qed

lemma collect_files:
  "distinct L \<Longrightarrow>
   foldl (\<lambda>acc i. (fst acc @ [map_of (snd acc) i], mapDelete i (snd acc))) (a, m) L =
     (a @ map (map_of m) L, filter (\<lambda>p. fst p \<notin> set L) m)"
proof (induction L arbitrary: a m)
  case Nil
  then show ?case by simp
next
  case (Cons i L)
  have "map (map_of (mapDelete i m)) L = map (map_of m) L"
    using Cons.prems by (auto simp: map_of_mapDelete)
  moreover have "filter (\<lambda>p. fst p \<notin> set L) (mapDelete i m) = filter (\<lambda>p. fst p \<notin> set (i # L)) m"
    by (auto simp: mapDelete_def intro: filter_cong)
  ultimately show ?case using Cons by simp
qed

lemma map_of_filter_notin:
  "map_of (filter (\<lambda>p. fst p \<notin> S) m) i = (if i \<in> S then None else map_of m i)"
  by (induction m) auto

lemma deleteAll_ok:
  assumes "distinct L"
    and "\<forall>i\<in>set L. \<exists>lf. g i = Some lf \<and> path lf = (vlogFile, i) \<and> fid lf = i \<and> fileType lf = vlogFile"
    and "\<forall>i\<in>set L. (vlogFile, i) \<in> set (dir st)"
  shows "deleteAll st (map g L) =
           Inr (st\<lparr>dir := filter (\<lambda>p. p \<notin> (\<lambda>i. (vlogFile, i)) ` set L) (dir st)\<rparr>)"
  using assms
proof (induction L arbitrary: st)
  case Nil
  then show ?case by simp
next
  case (Cons i L)
  obtain lf where lf: "g i = Some lf" "path lf = (vlogFile, i)" "fid lf = i" "fileType lf = vlogFile"
    using Cons.prems(2) by auto
  let ?st' = "st\<lparr>dir := removeAll (vlogFile, i) (dir st)\<rparr>"
  have d: "deleteLogFile st (g i) = Inr ?st'"
    using lf Cons.prems(3) by (simp add: deleteLogFile_def fpath_def)
  have "\<forall>j\<in>set L. (vlogFile, j) \<in> set (dir ?st')"
    using Cons.prems(1,3) by auto
  then have "deleteAll ?st' (map g L) =
      Inr (?st'\<lparr>dir := filter (\<lambda>p. p \<notin> (\<lambda>i. (vlogFile, i)) ` set L) (dir ?st')\<rparr>)"
    using Cons.IH [of ?st'] Cons.prems by auto
  moreover have "filter (\<lambda>p. p \<notin> (\<lambda>i. (vlogFile, i)) ` set L) (removeAll (vlogFile, i) (dir st))
      = filter (\<lambda>p. p \<notin> (\<lambda>i. (vlogFile, i)) ` set (i # L)) (dir st)"
    by (auto simp: removeAll_filter_not_eq intro: filter_cong)
  ultimately show ?case using d by simp
qed

lemma rewrite_now:
  assumes wf: "vlogOnDisk st1"
    and lt: "fid f < maxFid (vlog st)"
    and mv: "moved st = Inr st1"
    and f: "map_of (filesMap (vlog st1)) (fid f) = Some f"
    and z: "numActiveIterators (vlog st1) = 0"
  shows "rewrite st (Some f) moved =
           Inr (st1\<lparr>vlog := (vlog st1)\<lparr>filesMap := mapDelete (fid f) (filesMap (vlog st1))\<rparr>,
                    dir := removeAll (path f) (dir st1)\<rparr>)"
proof -
  from vlogOnDisk_lookup [OF wf f]
  have p: "fileType f = vlogFile" "path f = (vlogFile, fid f)" "(vlogFile, fid f) \<in> set (dir st1)"
    by auto
  show ?thesis
    using lt z p by (simp add: rewrite_def mv f deleteLogFile_def fpath_def)
qed

lemma rewrite_later:
  assumes lt: "fid f < maxFid (vlog st)"
    and mv: "moved st = Inr st1"
    and f: "map_of (filesMap (vlog st1)) (fid f) = Some f"
    and z: "numActiveIterators (vlog st1) \<noteq> 0"
  shows "rewrite st (Some f) moved =
           Inr (st1\<lparr>vlog := (vlog st1)\<lparr>filesToBeDeleted := filesToBeDeleted (vlog st1) @ [fid f]\<rparr>\<rparr>)"
  using lt z by (simp add: rewrite_def mv f)

lemma decr_last:
  assumes wf: "vlogOnDisk s"
    and d: "distinct (filesToBeDeleted (vlog s))"
    and sub: "set (filesToBeDeleted (vlog s)) \<subseteq> fst ` set (filesMap (vlog s))"
    and one: "numActiveIterators (vlog s) = 1"
  shows "decrIteratorCount s =
           Inr (s\<lparr>vlog := (vlog s)\<lparr>numActiveIterators := 0,
                     filesMap := filter (\<lambda>p. fst p \<notin> set (filesToBeDeleted (vlog s))) (filesMap (vlog s)),
                     filesToBeDeleted := []\<rparr>,
                  dir := filter (\<lambda>p. p \<notin> (\<lambda>i. (vlogFile, i)) ` set (filesToBeDeleted (vlog s))) (dir s)\<rparr>)"
proof -
  let ?L = "filesToBeDeleted (vlog s)"
  let ?m = "filesMap (vlog s)"
  have look: "\<forall>i\<in>set ?L. \<exists>lf. map_of ?m i = Some lf \<and> path lf = (vlogFile, i) \<and> fid lf = i \<and>
       fileType lf = vlogFile"
  proof
    fix i assume "i \<in> set ?L"
    then have "i \<in> fst ` set ?m" using sub by auto
    then obtain lf where l: "map_of ?m i = Some lf"
      by (metis domD dom_map_of_conv_image_fst)
    from vlogOnDisk_lookup [OF wf l] l
    show "\<exists>lf. map_of ?m i = Some lf \<and> path lf = (vlogFile, i) \<and> fid lf = i \<and> fileType lf = vlogFile"
      by auto
  qed
  have ond: "\<forall>i\<in>set ?L. (vlogFile, i) \<in> set (dir s)"
  proof
    fix i assume "i \<in> set ?L"
    then obtain lf where l: "map_of ?m i = Some lf" using look by blast
    from vlogOnDisk_lookup [OF wf l] show "(vlogFile, i) \<in> set (dir s)" by simp
  qed
  let ?s2 = "s\<lparr>vlog := (vlog s)\<lparr>numActiveIterators := 0,
                     filesMap := filter (\<lambda>p. fst p \<notin> set ?L) ?m, filesToBeDeleted := []\<rparr>\<rparr>"
  have da: "deleteAll ?s2 (map (map_of ?m) ?L) =
      Inr (?s2\<lparr>dir := filter (\<lambda>p. p \<notin> (\<lambda>i. (vlogFile, i)) ` set ?L) (dir ?s2)\<rparr>)"
    by (rule deleteAll_ok [OF d look]) (use ond in simp)
  show ?thesis
    unfolding decrIteratorCount_def
    using one da by (simp add: Let_def collect_files [OF d])
qed

lemma decr_not_last:
  assumes "numActiveIterators (vlog s) \<noteq> 1"
  shows "decrIteratorCount s =
           Inr (s\<lparr>vlog := (vlog s)\<lparr>numActiveIterators := numActiveIterators (vlog s) - 1\<rparr>\<rparr>)"
  using assms by (simp add: decrIteratorCount_def Let_def)

text \<open>
  C9. At the end of a rewrite of a file that stands in the map: with no active iterator
  the file leaves the map and its path leaves the directory at once; otherwise its id
  is appended to the list of files to be deleted and the file stays in the directory.
  The decrement of the iterator count that reaches zero removes from the map and from
  the directory exactly the files on that list and empties it; any other decrement
  changes the count only.
\<close>

theorem deferred_deletion:
  "(vlogOnDisk st1 \<longrightarrow> fid f < maxFid (vlog st) \<longrightarrow> moved st = Inr st1 \<longrightarrow>
    map_of (filesMap (vlog st1)) (fid f) = Some f \<longrightarrow>
      (if numActiveIterators (vlog st1) = 0
       then rewrite st (Some f) moved =
              Inr (st1\<lparr>vlog := (vlog st1)\<lparr>filesMap := mapDelete (fid f) (filesMap (vlog st1))\<rparr>,
                       dir := removeAll (path f) (dir st1)\<rparr>) \<and>
            map_of (mapDelete (fid f) (filesMap (vlog st1))) (fid f) = None \<and>
            path f \<notin> set (removeAll (path f) (dir st1))
       else rewrite st (Some f) moved =
              Inr (st1\<lparr>vlog := (vlog st1)
                         \<lparr>filesToBeDeleted := filesToBeDeleted (vlog st1) @ [fid f]\<rparr>\<rparr>) \<and>
            path f \<in> set (dir st1))) \<and>
   (vlogOnDisk s \<longrightarrow> distinct (filesToBeDeleted (vlog s)) \<longrightarrow>
    set (filesToBeDeleted (vlog s)) \<subseteq> fst ` set (filesMap (vlog s)) \<longrightarrow>
      (if numActiveIterators (vlog s) = 1
       then decrIteratorCount s =
              Inr (s\<lparr>vlog := (vlog s)
                        \<lparr>numActiveIterators := 0,
                         filesMap := filter (\<lambda>p. fst p \<notin> set (filesToBeDeleted (vlog s)))
                                       (filesMap (vlog s)),
                         filesToBeDeleted := []\<rparr>,
                     dir := filter (\<lambda>p. p \<notin> (\<lambda>i. (vlogFile, i)) ` set (filesToBeDeleted (vlog s)))
                              (dir s)\<rparr>)
       else decrIteratorCount s =
              Inr (s\<lparr>vlog := (vlog s)\<lparr>numActiveIterators := numActiveIterators (vlog s) - 1\<rparr>\<rparr>)))"
proof (intro conjI impI)
  assume a: "vlogOnDisk st1" "fid f < maxFid (vlog st)" "moved st = Inr st1"
    "map_of (filesMap (vlog st1)) (fid f) = Some f"
  from vlogOnDisk_lookup [OF a(1) a(4)]
  have p: "path f = (vlogFile, fid f)" "(vlogFile, fid f) \<in> set (dir st1)" by auto
  show "if numActiveIterators (vlog st1) = 0
       then rewrite st (Some f) moved =
              Inr (st1\<lparr>vlog := (vlog st1)\<lparr>filesMap := mapDelete (fid f) (filesMap (vlog st1))\<rparr>,
                       dir := removeAll (path f) (dir st1)\<rparr>) \<and>
            map_of (mapDelete (fid f) (filesMap (vlog st1))) (fid f) = None \<and>
            path f \<notin> set (removeAll (path f) (dir st1))
       else rewrite st (Some f) moved =
              Inr (st1\<lparr>vlog := (vlog st1)
                         \<lparr>filesToBeDeleted := filesToBeDeleted (vlog st1) @ [fid f]\<rparr>\<rparr>) \<and>
            path f \<in> set (dir st1)"
    using rewrite_now [of st1 f st moved] rewrite_later [of f st moved st1] a p
    by (simp add: map_of_mapDelete)
next
  assume b: "vlogOnDisk s" "distinct (filesToBeDeleted (vlog s))"
    "set (filesToBeDeleted (vlog s)) \<subseteq> fst ` set (filesMap (vlog s))"
  show "if numActiveIterators (vlog s) = 1
       then decrIteratorCount s =
              Inr (s\<lparr>vlog := (vlog s)
                        \<lparr>numActiveIterators := 0,
                         filesMap := filter (\<lambda>p. fst p \<notin> set (filesToBeDeleted (vlog s)))
                                       (filesMap (vlog s)),
                         filesToBeDeleted := []\<rparr>,
                     dir := filter (\<lambda>p. p \<notin> (\<lambda>i. (vlogFile, i)) ` set (filesToBeDeleted (vlog s)))
                              (dir s)\<rparr>)
       else decrIteratorCount s =
              Inr (s\<lparr>vlog := (vlog s)\<lparr>numActiveIterators := numActiveIterators (vlog s) - 1\<rparr>\<rparr>)"
    using decr_last [OF b] decr_not_last [of s] by simp
qed

lemma cx9_wf: "vlogOnDisk cx9_state"
  by (simp add: vlogOnDisk_def cx9_state_def mkState_def mkLog_def plainFile_def)

lemma cx9_wf_pending: "vlogOnDisk cx9_pending"
  using cx9_wf by (simp add: vlogOnDisk_def cx9_pending_def)

theorem deferred_deletion_witness:
  "rewrite cx9_state (Some (plainFile vlogFile 0 (replicate 20 0))) Inr =
     Inr (cx9_state\<lparr>vlog := (vlog cx9_state)\<lparr>filesMap := [(1, plainFile vlogFile 1 (replicate 20 0))]\<rparr>,
                    dir := [(vlogFile, 1), (walFile, 0)]\<rparr>) \<and>
   rewrite cx9_pending (Some (plainFile vlogFile 1 (replicate 20 0))) Inr = Inl (Panic, cx9_pending) \<and>
   decrIteratorCount cx9_pending =
     Inr (cx9_pending\<lparr>vlog := (vlog cx9_pending)
                        \<lparr>numActiveIterators := 0,
                         filesMap := [(1, plainFile vlogFile 1 (replicate 20 0))],
                         filesToBeDeleted := []\<rparr>,
                     dir := [(vlogFile, 1), (walFile, 0)]\<rparr>)"
proof -
  have r: "rewrite cx9_pending (Some (plainFile vlogFile 1 (replicate 20 0))) Inr = Inl (Panic, cx9_pending)"
    by (simp add: rewrite_def cx9_pending_def cx9_state_def mkState_def mkLog_def plainFile_def)
  show ?thesis
    using r cx9_wf cx9_wf_pending
      deferred_deletion [of cx9_state "plainFile vlogFile 0 (replicate 20 0)" cx9_state Inr cx9_pending]
    by (simp add: cx9_pending_def cx9_state_def mkState_def mkLog_def plainFile_def mapDelete_def)
qed

subsection \<open>Replay\<close>

declare iterate_loop.simps [simp del]

lemma framing_cong:
  "meta e' = meta e \<Longrightarrow> Key e' = Key e \<Longrightarrow> Value e' = Value e \<Longrightarrow>
   framing e' lc ve ro = framing e lc ve ro"
  by (simp add: framing_def)

lemma loop_step:
  assumes vk: "validKey lf" and fr: "fitsRecord e"
  shows "iterate_loop ks lf recordFn (recordOf ks lf off e @ rest) off lc ve log =
     (case framing e lc ve (off + of_nat (recordLen e)) of
        None \<Rightarrow> (Inr ve, log)
      | Some (lc', ve') \<Rightarrow>
          iterate_loop ks lf recordFn rest (off + of_nat (recordLen e)) lc' ve'
            (log @ delivered lf off [e]))"
proof -
  let ?e' = "e\<lparr>offset := off, skipVlog := False, hlen := length (Encode (headerOf e))\<rparr>"
  have r: "safeRead_Entry ks lf off (recordOf ks lf off e @ rest) = Inr (?e', rest)"
    using safeRead_Entry_roundtrip [OF vk, of e ks off rest] fr
    by (simp add: recordOf_def fitsRecord_def)
  have f: "framing ?e' lc ve (off + of_nat (recordLen e)) = framing e lc ve (off + of_nat (recordLen e))"
    by (rule framing_cong) simp_all
  have len: "hlen ?e' + length (Key ?e') + length (Value ?e') + 4 = recordLen e"
    by (simp add: recordLen_def)
  have o: "offset ?e' = off" by simp
  show ?thesis
    apply (subst iterate_loop.simps)
    apply (simp only: r sum.case prod.case Let_def len f o)
    apply (simp add: recordFn_def split: option.splits)
    done
qed

lemma loop_eof: "iterate_loop ks lf fn [] off lc ve log = (Inr ve, log)"
  by (subst iterate_loop.simps) (simp add: safeRead_Entry_def DecodeFrom_def Decode_def)

lemma delivered_append:
  "delivered lf off (xs @ ys) =
     delivered lf off xs @ delivered lf (off + of_nat (sum_list (map recordLen xs))) ys"
  by (induction xs arbitrary: off) (simp_all add: add.assoc)

lemma layout_append:
  "layout ks lf off (xs @ ys) =
     layout ks lf off xs @ layout ks lf (off + of_nat (sum_list (map recordLen xs))) ys"
  by (induction xs arbitrary: off) (simp_all add: add.assoc)

lemma length_recordOf [simp]: "length (recordOf ks lf off e) = recordLen e"
  by (simp add: recordOf_def recordLen_def)

lemma length_layout [simp]: "length (layout ks lf off es) = sum_list (map recordLen es)"
  by (induction es arbitrary: off) simp_all

lemma loop_txn_entries:
  assumes vk: "validKey lf"
  shows "list_all (isTxnEntry ts) es \<Longrightarrow> list_all fitsRecord es \<Longrightarrow> es \<noteq> [] \<Longrightarrow>
     lc = 0 \<or> lc = ts \<Longrightarrow>
     iterate_loop ks lf recordFn (layout ks lf off es @ rest) off lc ve log =
       iterate_loop ks lf recordFn rest (off + of_nat (sum_list (map recordLen es))) ts ve
         (log @ delivered lf off es)"
proof (induction es arbitrary: off lc log)
  case Nil
  then show ?case by simp
next
  case (Cons e es)
  have t: "isTxnEntry ts e" and f: "fitsRecord e" using Cons.prems by simp_all
  have fr: "framing e lc ve (off + of_nat (recordLen e)) = Some (ts, ve)"
    using t Cons.prems(4) by (auto simp add: framing_def isTxnEntry_def Let_def)
  have step: "iterate_loop ks lf recordFn (layout ks lf off (e # es) @ rest) off lc ve log =
      iterate_loop ks lf recordFn (layout ks lf (off + of_nat (recordLen e)) es @ rest)
        (off + of_nat (recordLen e)) ts ve (log @ delivered lf off [e])"
    using loop_step [OF vk f, of ks off "layout ks lf (off + of_nat (recordLen e)) es @ rest" lc ve log]
    by (simp add: fr)
  show ?case
  proof (cases "es = []")
    case True
    then show ?thesis using step by simp
  next
    case False
    have "iterate_loop ks lf recordFn (layout ks lf (off + of_nat (recordLen e)) es @ rest)
        (off + of_nat (recordLen e)) ts ve (log @ delivered lf off [e]) =
      iterate_loop ks lf recordFn rest
        (off + of_nat (recordLen e) + of_nat (sum_list (map recordLen es))) ts ve
        ((log @ delivered lf off [e]) @ delivered lf (off + of_nat (recordLen e)) es)"
      using Cons.prems False by (intro Cons.IH) simp_all
    then show ?thesis using step by (simp add: add.assoc)
  qed
qed

lemma loop_commit:
  assumes vk: "validKey lf" and c: "isCommit ts e" and f: "fitsRecord e"
  shows "iterate_loop ks lf recordFn (recordOf ks lf off e @ rest) off ts ve log =
       iterate_loop ks lf recordFn rest (off + of_nat (recordLen e)) 0 (off + of_nat (recordLen e))
         (log @ delivered lf off [e])"
proof -
  have fr: "framing e ts ve (off + of_nat (recordLen e)) = Some (0, off + of_nat (recordLen e))"
    using c by (simp add: framing_def isCommit_def)
  show ?thesis using loop_step [OF vk f, of ks off rest ts ve log] by (simp add: fr)
qed

lemma loop_committed:
  assumes vk: "validKey lf" and c: "committedTxn g" and f: "list_all fitsRecord (snd g)"
  shows "iterate_loop ks lf recordFn (layout ks lf off (snd g) @ rest) off 0 ve log =
       iterate_loop ks lf recordFn rest (off + of_nat (sum_list (map recordLen (snd g)))) 0
         (off + of_nat (sum_list (map recordLen (snd g)))) (log @ delivered lf off (snd g))"
proof -
  obtain ts es where g: "g = (ts, es)" by (cases g)
  have ne: "es \<noteq> []" using c g by (auto simp: committedTxn_def)
  let ?b = "butlast es"
  let ?l = "last es"
  have es: "es = ?b @ [?l]" using ne by simp
  have b: "list_all (isTxnEntry ts) ?b" "?b \<noteq> []" "isCommit ts ?l"
    using c g by (auto simp: committedTxn_def) (cases es; cases "tl es"; simp)
  have fb: "list_all fitsRecord ?b" "fitsRecord ?l"
    using f g ne by (auto simp: list_all_iff dest: in_set_butlastD)
  let ?o1 = "off + of_nat (sum_list (map recordLen ?b))"
  have 1: "iterate_loop ks lf recordFn (layout ks lf off ?b @ recordOf ks lf ?o1 ?l @ rest) off 0 ve log =
      iterate_loop ks lf recordFn (recordOf ks lf ?o1 ?l @ rest) ?o1 ts ve (log @ delivered lf off ?b)"
    by (rule loop_txn_entries [OF vk b(1) fb(1) b(2)]) simp
  have 2: "iterate_loop ks lf recordFn (recordOf ks lf ?o1 ?l @ rest) ?o1 ts ve (log @ delivered lf off ?b) =
      iterate_loop ks lf recordFn rest (?o1 + of_nat (recordLen ?l)) 0 (?o1 + of_nat (recordLen ?l))
        ((log @ delivered lf off ?b) @ delivered lf ?o1 [?l])"
    by (rule loop_commit [OF vk b(3) fb(2)])
  have lay: "layout ks lf off es = layout ks lf off ?b @ recordOf ks lf ?o1 ?l"
    by (subst es, subst layout_append) simp
  have del: "delivered lf off es = delivered lf off ?b @ delivered lf ?o1 [?l]"
    by (subst es, subst delivered_append) simp
  have sm: "sum_list (map recordLen es) = sum_list (map recordLen ?b) + recordLen ?l"
    by (subst es) simp
  show ?thesis
    unfolding g snd_conv lay del sm using 1 2 by (simp add: add.assoc)
qed

lemma loop_groups:
  assumes vk: "validKey lf"
  shows "list_all committedTxn gs \<Longrightarrow> list_all fitsRecord (concat (map snd gs)) \<Longrightarrow>
     iterate_loop ks lf recordFn (layout ks lf off (concat (map snd gs)) @ rest) off 0 ve log =
       iterate_loop ks lf recordFn rest (off + of_nat (sum_list (map recordLen (concat (map snd gs))))) 0
         (if gs = [] then ve else off + of_nat (sum_list (map recordLen (concat (map snd gs)))))
         (log @ delivered lf off (concat (map snd gs)))"
proof (induction gs arbitrary: off ve log)
  case Nil
  then show ?case by simp
next
  case (Cons g gs)
  let ?n = "sum_list (map recordLen (snd g))"
  let ?r = "concat (map snd gs)"
  have c: "committedTxn g" and f: "list_all fitsRecord (snd g)"
    using Cons.prems by simp_all
  have 1: "iterate_loop ks lf recordFn (layout ks lf off (snd g) @ layout ks lf (off + of_nat ?n) ?r @ rest)
              off 0 ve log =
       iterate_loop ks lf recordFn (layout ks lf (off + of_nat ?n) ?r @ rest) (off + of_nat ?n) 0
         (off + of_nat ?n) (log @ delivered lf off (snd g))"
    by (rule loop_committed [OF vk c f])
  have 2: "iterate_loop ks lf recordFn (layout ks lf (off + of_nat ?n) ?r @ rest) (off + of_nat ?n) 0
         (off + of_nat ?n) (log @ delivered lf off (snd g)) =
       iterate_loop ks lf recordFn rest (off + of_nat ?n + of_nat (sum_list (map recordLen ?r))) 0
         (if gs = [] then off + of_nat ?n else off + of_nat ?n + of_nat (sum_list (map recordLen ?r)))
         ((log @ delivered lf off (snd g)) @ delivered lf (off + of_nat ?n) ?r)"
    using Cons.prems by (intro Cons.IH) simp_all
  show ?case
    using 1 2 by (simp add: layout_append delivered_append add.assoc)
qed

lemma recordLen_pos: "0 < recordLen e"
  by (simp add: recordLen_def)

lemma iterate_torn:
  assumes vk: "validKey lf"
    and hd: "length hdr = lfHeaderSize"
    and fd: "fd lf = hdr @ layout ks lf 20 (concat (map snd gs) @ torn)"
    and gs: "list_all committedTxn gs"
    and tn: "tornTxn ts torn"
    and fit: "list_all fitsRecord (concat (map snd gs) @ torn)"
    and ro: "\<not> ReadOnly opts"
  shows "iterate ks opts lf 0 recordFn [] =
           (Inr (20 + of_nat (sum_list (map recordLen (concat (map snd gs))))),
            delivered lf 20 (concat (map snd gs) @ torn))"
proof -
  let ?C = "concat (map snd gs)"
  let ?n = "sum_list (map recordLen ?C)"
  let ?o = "20 + of_nat ?n :: 32 word"
  have tne: "torn \<noteq> []" and tt: "list_all (isTxnEntry ts) torn"
    using tn by (simp_all add: tornTxn_def)
  define nT where "nT = sum_list (map recordLen torn)"
  have "0 < nT"
    unfolding nT_def using tne recordLen_pos by (cases torn) (simp_all add: add_pos_nonneg)
  moreover have "length (fd lf) = 20 + ?n + nT"
    unfolding nT_def using hd by (simp add: fd lfHeaderSize_def)
  ultimately have sz: "20 \<noteq> length (fd lf)" by simp
  have dr: "drop 20 (fd lf) = layout ks lf 20 ?C @ layout ks lf ?o torn @ []"
    using hd by (simp add: fd lfHeaderSize_def layout_append)
  have fC: "list_all fitsRecord ?C" and fT: "list_all fitsRecord torn"
    using fit by simp_all
  have 1: "iterate_loop ks lf recordFn (layout ks lf 20 ?C @ layout ks lf ?o torn @ []) 20 0 20 [] =
      iterate_loop ks lf recordFn (layout ks lf ?o torn @ []) ?o 0
        (if gs = [] then 20 else ?o) ([] @ delivered lf 20 ?C)"
    by (rule loop_groups [OF vk gs fC])
  have ve: "(if gs = [] then 20 else ?o) = ?o" by simp
  have 2: "iterate_loop ks lf recordFn (layout ks lf ?o torn @ []) ?o 0 ?o ([] @ delivered lf 20 ?C) =
      iterate_loop ks lf recordFn [] (?o + of_nat (sum_list (map recordLen torn))) ts ?o
        (([] @ delivered lf 20 ?C) @ delivered lf ?o torn)"
    by (rule loop_txn_entries [OF vk tt fT tne]) simp
  have "iterate ks opts lf 0 recordFn [] = iterate_loop ks lf recordFn (drop 20 (fd lf)) 20 0 20 []"
    using sz ro by (simp add: iterate_def lfHeaderSize_def)
  also have "\<dots> = (Inr ?o, delivered lf 20 ?C @ delivered lf ?o torn)"
    unfolding dr 1 ve 2 by (simp add: loop_eof)
  finally show ?thesis by (simp add: delivered_append)
qed

lemma replay_torn:
  assumes vk: "validKey lf"
    and wf: "fileType lf = walFile"
    and hd: "length hdr = lfHeaderSize"
    and fd: "fd lf = hdr @ layout (aesCTR env) lf 20 (concat (map snd gs) @ torn)"
    and gs: "list_all committedTxn gs"
    and tn: "tornTxn ts torn"
    and fit: "list_all fitsRecord (concat (map snd gs) @ torn)"
    and sz: "length (fd lf) < 2 ^ 32"
    and ro: "\<not> ReadOnly (opt st)"
    and tr: "Truncate (opt st)"
    and ne: "gs \<noteq> []"
  shows "replayLog env st lf 0 recordFn [] =
           (Inr (), lf\<lparr>fd := hdr @ layout (aesCTR env) lf 20 (concat (map snd gs))\<rparr>,
            delivered lf 20 (concat (map snd gs) @ torn))"
proof -
  let ?ks = "aesCTR env"
  let ?C = "concat (map snd gs)"
  let ?n = "sum_list (map recordLen ?C)"
  have it: "iterate ?ks (opt st) lf 0 recordFn [] =
      (Inr (20 + of_nat ?n), delivered lf 20 (?C @ torn))"
    by (rule iterate_torn [OF vk hd fd gs tn fit ro])
  have tne: "torn \<noteq> []" using tn by (simp add: tornTxn_def)
  define nT where "nT = sum_list (map recordLen torn)"
  define nC where "nC = ?n"
  have tp: "0 < nT"
    unfolding nT_def using tne recordLen_pos by (cases torn) (simp_all add: add_pos_nonneg)
  have len: "length (fd lf) = 20 + nC + nT"
    unfolding nT_def nC_def using hd by (simp add: fd lfHeaderSize_def)
  have "(20 :: 32 word) + of_nat nC = of_nat (20 + nC)" by simp
  moreover have "20 + nC < 2 ^ 32" using sz len by simp
  ultimately have un: "unat ((20 :: 32 word) + of_nat nC) = 20 + nC"
    by (simp only: unat_of_nat) simp
  obtain g gs' where g: "gs = g # gs'" using ne by (cases gs) auto
  have "committedTxn g" using gs g by simp
  then have "snd g \<noteq> []" by (auto simp: committedTxn_def)
  then have "0 < sum_list (map recordLen (snd g))"
    using recordLen_pos by (cases "snd g") (simp_all add: add_pos_nonneg)
  then have np: "0 < nC" unfolding nC_def using g by simp
  have cut: "ftruncate (20 + nC) (fd lf) = hdr @ layout ?ks lf 20 ?C"
    unfolding nC_def using hd by (simp add: ftruncate_def fd lfHeaderSize_def layout_append)
  have it': "iterate ?ks (opt st) lf 0 recordFn [] =
      (Inr (20 + of_nat nC), delivered lf 20 (?C @ torn))"
    using it by (simp add: nC_def)
  show ?thesis
    unfolding replayLog_def it'
    using wf tr np tp by (simp add: un len lfHeaderSize_def cut)
qed

lemma recordOf_cong:
  "dataKey lf = dataKey lf' \<Longrightarrow> baseIV lf = baseIV lf' \<Longrightarrow>
   recordOf ks lf off e = recordOf ks lf' off e"
  by (simp add: recordOf_def ENC_def split: option.splits)

lemma layout_cong:
  assumes "dataKey lf = dataKey lf'" "baseIV lf = baseIV lf'"
  shows "layout ks lf off es = layout ks lf' off es"
  by (induction es arbitrary: off) (simp_all add: recordOf_cong [OF assms])

lemma recordLen_le: "recordLen e \<le> 26 + length (Key e) + length (Value e)"
  using length_Encode_le [of "headerOf e"] by (simp add: recordLen_def maxHeaderSize_def)

lemma cx2_txn: "isTxnEntry 10 cx2_e1" "isCommit 10 cx2_fin" "isTxnEntry 20 cx2_e3"
  by (simp_all add: isTxnEntry_def isCommit_def cx2_e1_def cx2_fin_def cx2_e3_def mkEntry_def
      bitTxn_def bitFinTxn_def ParseTs_def ParseUint_def isDigit_def)

lemma cx2_fits: "fitsRecord cx2_e1" "fitsRecord cx2_fin" "fitsRecord cx2_e3"
  by (simp_all add: fitsRecord_def cx2_e1_def cx2_fin_def cx2_e3_def mkEntry_def)

lemma cx2_small:
  "20 + (recordLen cx2_e1 + (recordLen cx2_fin + recordLen cx2_e3)) < 2 ^ 32"
  using recordLen_le [of cx2_e1] recordLen_le [of cx2_fin] recordLen_le [of cx2_e3]
  by (simp add: cx2_e1_def cx2_fin_def cx2_e3_def mkEntry_def)

text \<open>
  C2, as amended. Take a write-ahead log file, plain or well keyed and shorter than
  \<open>2^32\<close> bytes, that holds behind its 20-byte header the records of committed
  transactions and then a final group of \<^verbatim>\<open>TXN\<close> records with no commit marker, and
  replay it from the start, not read-only. \<^verbatim>\<open>iterate\<close> hands every record of the file to
  the caller's function, in order, the records of the torn transaction included, and
  returns the offset behind the last record of the last committed transaction. When
  truncation is permitted and at least one transaction is committed, \<^verbatim>\<open>replayLog\<close> cuts
  the file at that offset.
\<close>

theorem replay_torn_transaction:
  assumes "validKey lf"
    and "fileType lf = walFile"
    and "length hdr = lfHeaderSize"
    and "fd lf = hdr @ layout (aesCTR env) lf 20 (concat (map snd gs) @ torn)"
    and "list_all committedTxn gs"
    and "tornTxn ts torn"
    and "list_all fitsRecord (concat (map snd gs) @ torn)"
    and "length (fd lf) < 2 ^ 32"
    and "\<not> ReadOnly (opt st)"
  shows "iterate (aesCTR env) (opt st) lf 0 recordFn [] =
           (Inr (20 + of_nat (sum_list (map recordLen (concat (map snd gs))))),
            delivered lf 20 (concat (map snd gs) @ torn)) \<and>
         (Truncate (opt st) \<longrightarrow> gs \<noteq> [] \<longrightarrow>
            replayLog env st lf 0 recordFn [] =
              (Inr (), lf\<lparr>fd := hdr @ layout (aesCTR env) lf 20 (concat (map snd gs))\<rparr>,
               delivered lf 20 (concat (map snd gs) @ torn)))"
proof (intro conjI impI)
  show "iterate (aesCTR env) (opt st) lf 0 recordFn [] =
           (Inr (20 + of_nat (sum_list (map recordLen (concat (map snd gs))))),
            delivered lf 20 (concat (map snd gs) @ torn))"
    by (rule iterate_torn [OF assms(1,3,4,5,6,7,9)])
next
  assume "Truncate (opt st)" "gs \<noteq> []"
  then show "replayLog env st lf 0 recordFn [] =
              (Inr (), lf\<lparr>fd := hdr @ layout (aesCTR env) lf 20 (concat (map snd gs))\<rparr>,
               delivered lf 20 (concat (map snd gs) @ torn))"
    by (rule replay_torn [OF assms])
qed

lemma cx2_facts:
  "validKey cx2_file" "fileType cx2_file = walFile"
  "length (replicate 20 (0::byte)) = lfHeaderSize"
  "list_all committedTxn [(10, [cx2_e1, cx2_fin])]" "tornTxn 20 [cx2_e3]"
  "list_all fitsRecord (concat (map snd [(10, [cx2_e1, cx2_fin])]) @ [cx2_e3])"
  by (simp_all add: validKey_def cx2_file_def plainFile_def lfHeaderSize_def committedTxn_def
      tornTxn_def cx2_txn cx2_fits)

lemma cx2_opts: "\<not> ReadOnly (opt cx2_state)" "Truncate (opt cx2_state)"
  by (simp_all add: cx2_state_def mkState_def defaultOptions_def)

lemma cx2_fd:
  "fd cx2_file = replicate 20 0 @ layout noKeystream cx2_file 20 [cx2_e1, cx2_fin, cx2_e3]"
proof -
  have "layout noKeystream (plainFile walFile 0 []) 20 [cx2_e1, cx2_fin, cx2_e3] =
        layout noKeystream cx2_file 20 [cx2_e1, cx2_fin, cx2_e3]"
    by (rule layout_cong) (simp_all add: cx2_file_def plainFile_def)
  moreover have "fd cx2_file = replicate 20 0 @
      layout noKeystream (plainFile walFile 0 []) 20 [cx2_e1, cx2_fin, cx2_e3]"
    by (simp add: cx2_file_def plainFile_def)
  ultimately show ?thesis by (simp only:)
qed

lemma cx2_size: "length (fd cx2_file) < 2 ^ 32"
proof -
  have "length (fd cx2_file) = 20 + (recordLen cx2_e1 + (recordLen cx2_fin + recordLen cx2_e3))"
    by (simp add: cx2_file_def plainFile_def)
  then show ?thesis using cx2_small by simp
qed

lemma cx2_replay:
  "replayLog (testEnv noKeystream) cx2_state cx2_file 0 recordFn [] =
     (Inr (), cx2_file\<lparr>fd := replicate 20 0 @ layout noKeystream cx2_file 20 [cx2_e1, cx2_fin]\<rparr>,
      delivered cx2_file 20 [cx2_e1, cx2_fin, cx2_e3])"
proof -
  have ks: "aesCTR (testEnv noKeystream) = noKeystream" by (simp add: testEnv_def)
  have fd: "fd cx2_file = replicate 20 0 @
      layout (aesCTR (testEnv noKeystream)) cx2_file 20
        (concat (map snd [(10, [cx2_e1, cx2_fin])]) @ [cx2_e3])"
    unfolding ks using cx2_fd by simp
  have ne: "[(10 :: 64 word, [cx2_e1, cx2_fin])] \<noteq> []" by simp
  from replay_torn [OF cx2_facts(1,2,3) fd cx2_facts(4,5,6) cx2_size cx2_opts ne]
  show ?thesis unfolding ks by simp
qed

text \<open>
  C2 as stated fails: the caller's function is invoked on the torn transaction too. The
  file holds the transaction of timestamp 10 (one record and its commit marker) and
  one \<^verbatim>\<open>TXN\<close> record of timestamp 20 without a marker; replay hands on all three
  records, the third being the torn one, and cuts the file behind the marker.
\<close>

theorem replay_torn_transaction_counterexample:
  "list_all committedTxn [(10, [cx2_e1, cx2_fin])] \<and> tornTxn 20 [cx2_e3] \<and>
   fd cx2_file = replicate 20 0 @ layout noKeystream cx2_file 20 [cx2_e1, cx2_fin, cx2_e3] \<and>
   replayLog (testEnv noKeystream) cx2_state cx2_file 0 recordFn [] =
     (Inr (), cx2_file\<lparr>fd := replicate 20 0 @ layout noKeystream cx2_file 20 [cx2_e1, cx2_fin]\<rparr>,
      delivered cx2_file 20 [cx2_e1, cx2_fin, cx2_e3]) \<and>
   map (\<lambda>p. Key (fst p)) (delivered cx2_file 20 [cx2_e1, cx2_fin, cx2_e3]) =
     [Key cx2_e1, Key cx2_fin, Key cx2_e3]"
proof -
  have m: "map (\<lambda>p. Key (fst p)) (delivered cx2_file 20 [cx2_e1, cx2_fin, cx2_e3]) =
     [Key cx2_e1, Key cx2_fin, Key cx2_e3]"
    by simp
  show ?thesis
    by (intro conjI cx2_facts(4) cx2_facts(5) cx2_fd cx2_replay m)
qed

lemma wit2_facts:
  "validKey wit2_file" "fileType wit2_file = walFile"
  by (simp_all add: validKey_def wit2_file_def cipherFile_def)

lemma wit2_opts: "\<not> ReadOnly (opt wit2_state)" "Truncate (opt wit2_state)"
  by (simp_all add: wit2_state_def mkState_def defaultOptions_def)

lemma wit2_fd:
  "fd wit2_file = replicate 20 0 @ layout toyKeystream wit2_file 20 [cx2_e1, cx2_fin, cx2_e3]"
proof -
  have "layout toyKeystream (cipherFile walFile 0 []) 20 [cx2_e1, cx2_fin, cx2_e3] =
        layout toyKeystream wit2_file 20 [cx2_e1, cx2_fin, cx2_e3]"
    by (rule layout_cong) (simp_all add: wit2_file_def cipherFile_def)
  moreover have "fd wit2_file = replicate 20 0 @
      layout toyKeystream (cipherFile walFile 0 []) 20 [cx2_e1, cx2_fin, cx2_e3]"
    by (simp add: wit2_file_def cipherFile_def)
  ultimately show ?thesis by (simp only:)
qed

lemma wit2_size: "length (fd wit2_file) < 2 ^ 32"
proof -
  have "length (fd wit2_file) = 20 + (recordLen cx2_e1 + (recordLen cx2_fin + recordLen cx2_e3))"
    by (simp add: wit2_file_def cipherFile_def)
  then show ?thesis using cx2_small by simp
qed

theorem replay_torn_transaction_witness:
  "iterate toyKeystream (opt wit2_state) wit2_file 0 recordFn [] =
     (Inr (20 + of_nat (sum_list (map recordLen [cx2_e1, cx2_fin]))),
      delivered wit2_file 20 [cx2_e1, cx2_fin, cx2_e3]) \<and>
   replayLog (testEnv toyKeystream) wit2_state wit2_file 0 recordFn [] =
     (Inr (), wit2_file\<lparr>fd := replicate 20 0 @ layout toyKeystream wit2_file 20 [cx2_e1, cx2_fin]\<rparr>,
      delivered wit2_file 20 [cx2_e1, cx2_fin, cx2_e3])"
proof -
  have ks: "aesCTR (testEnv toyKeystream) = toyKeystream" by (simp add: testEnv_def)
  have fd: "fd wit2_file = replicate 20 0 @
      layout (aesCTR (testEnv toyKeystream)) wit2_file 20
        (concat (map snd [(10, [cx2_e1, cx2_fin])]) @ [cx2_e3])"
    unfolding ks using wit2_fd by simp
  from replay_torn_transaction [OF wit2_facts cx2_facts(3) fd cx2_facts(4,5,6) wit2_size wit2_opts(1)]
    wit2_opts(2)
  show ?thesis unfolding ks by simp
qed

end
